theory Spec2Isabelle
  imports Main
begin

section \<open>Attendance records and the browser's object store\<close>

text \<open>
  The application (\<^verbatim>\<open>src/pages/index.js\<close>) keeps attendance records in one IndexedDB
  object store and drives it from a React component. JavaScript strings are modelled
  as \<^typ>\<open>string\<close>, numbers that count (keys, milliseconds) as \<^typ>\<open>nat\<close>, and
  \<^verbatim>\<open>null\<close> as \<^const>\<open>None\<close>.
\<close>

subsection \<open>String helpers of the JavaScript runtime\<close>

text \<open>\<^verbatim>\<open>String.prototype.includes\<close>: the argument occurs as a contiguous run.\<close>

fun str_includes :: "string \<Rightarrow> string \<Rightarrow> bool" where
  "str_includes [] sub = (sub = [])"
| "str_includes (c # cs) sub = (take (length sub) (c # cs) = sub \<or> str_includes cs sub)"

text \<open>
  \<^verbatim>\<open>String.prototype.trim\<close> removes white space and line terminators at both ends.
  Among the characters a \<^typ>\<open>char\<close> can hold these are TAB, LF, VT, FF, CR, SPACE and
  NBSP.
\<close>

definition isWhiteSpace :: "char \<Rightarrow> bool" where
  "isWhiteSpace c = (of_char c \<in> {9, 10, 11, 12, 13, 32, 160 :: nat})"

definition trim :: "string \<Rightarrow> string" where
  "trim s = rev (dropWhile isWhiteSpace (rev (dropWhile isWhiteSpace s)))"

subsection \<open>Records\<close>

text \<open>
  \<^verbatim>\<open>initialFormData\<close> fixes the shape of the form object. \<^verbatim>\<open>addRecord\<close> spreads it into
  an object with a \<^verbatim>\<open>timestamp\<close>, and the object store, whose key path is \<^verbatim>\<open>id\<close>, adds the
  generated key. The three shapes are one record type and two extensions of it.
\<close>

record status_flags =
  pwd :: bool
  senior :: bool
  osy :: bool

record form_data =
  completeName :: string
  sex :: string
  designation :: string
  division :: string
  status :: status_flags
  signature :: "string option"

record record_object = form_data +
  timestamp :: nat

record attendance = record_object +
  id' :: nat

definition initialFormData :: form_data where
  "initialFormData =
     \<lparr>completeName = '''', sex = ''M'', designation = '''', division = '''',
      status = \<lparr>pwd = False, senior = False, osy = False\<rparr>, signature = None\<rparr>"

subsection \<open>Constants\<close>

definition IDB_SUCCESS_MESSAGE :: string where
  "IDB_SUCCESS_MESSAGE = ''Record saved successfully to IndexedDB.''"

definition IDB_DELETE_MESSAGE :: string where
  "IDB_DELETE_MESSAGE = ''Record deleted successfully.''"

definition IDB_CLEAR_ALL_MESSAGE :: string where
  "IDB_CLEAR_ALL_MESSAGE = ''All records cleared successfully.''"

definition IDB_ERROR_MESSAGE :: string where
  "IDB_ERROR_MESSAGE = ''Could not access IndexedDB. Check console for details.''"

subsection \<open>The IndexedDB database, as the adapter sees it\<close>

text \<open>
  A thrown or rejected value is an object with a \<^verbatim>\<open>message\<close>: an \<^verbatim>\<open>Error\<close> made by the
  program or the \<^verbatim>\<open>DOMException\<close> found in \<^verbatim>\<open>event.target.error\<close>.
\<close>

datatype js_error = Error (error_message: string)

text \<open>
  The database is the browser's, not the program's. Its model holds the object store
  \<^verbatim>\<open>names\<close> in ascending key order (the order in which \<^verbatim>\<open>getAll\<close> lists it), the current
  number of the store's key generator (\<^verbatim>\<open>autoIncrement: true\<close>; it starts at 1 and is
  never reset), and the way the browser currently fails, if it does:
  \<^item> \<open>Unsupported\<close>: \<^verbatim>\<open>window.indexedDB\<close> is missing;
  \<^item> \<open>OpenFails e\<close>: \<^verbatim>\<open>indexedDB.open\<close> fires \<^verbatim>\<open>onerror\<close> with \<open>e\<close>;
  \<^item> \<open>RequestFails e\<close>: the database opens, and the request made on the object store
    (\<^verbatim>\<open>add\<close>, \<^verbatim>\<open>getAll\<close>, \<^verbatim>\<open>delete\<close>, \<^verbatim>\<open>clear\<close>) fires \<^verbatim>\<open>onerror\<close> with \<open>e\<close>.
  A request that fails leaves the object store as it was.
\<close>

datatype idb_fault = Healthy | Unsupported | OpenFails js_error | RequestFails js_error

record idb =
  names :: "attendance list"
  keyGenerator :: nat
  fault :: idb_fault

definition emptyDB :: idb where
  "emptyDB = \<lparr>names = [], keyGenerator = 1, fault = Healthy\<rparr>"

text \<open>The requests of \<^verbatim>\<open>IDBObjectStore\<close> that the adapter makes.\<close>

definition store_add :: "record_object \<Rightarrow> idb \<Rightarrow> js_error + (nat \<times> idb)" where
  "store_add recordObject db =
     (case fault db of
        RequestFails e \<Rightarrow> Inl e
      | _ \<Rightarrow>
          (let key = keyGenerator db;
               stored = record_object.extend recordObject (attendance.fields key)
           in Inr (key, db\<lparr>names := insort_key id' stored (names db),
                           keyGenerator := key + 1\<rparr>)))"

definition store_getAll :: "idb \<Rightarrow> js_error + attendance list" where
  "store_getAll db =
     (case fault db of RequestFails e \<Rightarrow> Inl e | _ \<Rightarrow> Inr (names db))"

definition store_delete :: "nat \<Rightarrow> idb \<Rightarrow> js_error + idb" where
  "store_delete key db =
     (case fault db of
        RequestFails e \<Rightarrow> Inl e
      | _ \<Rightarrow> Inr (db\<lparr>names := filter (\<lambda>r. id' r \<noteq> key) (names db)\<rparr>))"

definition store_clear :: "idb \<Rightarrow> js_error + idb" where
  "store_clear db =
     (case fault db of RequestFails e \<Rightarrow> Inl e | _ \<Rightarrow> Inr (db\<lparr>names := []\<rparr>))"

subsection \<open>The adapter: \<^verbatim>\<open>openDB\<close>, \<^verbatim>\<open>addRecord\<close>, \<^verbatim>\<open>getAllRecords\<close>, \<^verbatim>\<open>deleteRecord\<close>, \<^verbatim>\<open>deleteAllRecords\<close>\<close>

text \<open>
  Each adapter function is \<^verbatim>\<open>async\<close> and has the same shape:
  \<^verbatim>\<open>try { const db = await openDB(); ...; return new Promise(...) } catch (error) { throw new Error(IDB_ERROR_MESSAGE) }\<close>.
  The rejection of \<^verbatim>\<open>openDB\<close> is awaited inside \<^verbatim>\<open>try\<close>, so the \<^verbatim>\<open>catch\<close> replaces it by the
  generic error. The promise of the request is returned without \<^verbatim>\<open>await\<close>: when the
  request's \<^verbatim>\<open>onerror\<close> rejects it, the function has already left the \<^verbatim>\<open>try\<close> block, and the
  caller receives \<^verbatim>\<open>event.target.error\<close> itself.

  A result is \<open>Inl\<close> of the value thrown to the caller or \<open>Inr\<close> of the value the promise
  resolves to, with the database afterwards where the call may write.
\<close>

definition openDB :: "idb \<Rightarrow> js_error + idb" where
  "openDB db =
     (case fault db of
        Unsupported \<Rightarrow> Inl (Error ''IndexedDB is not supported by this browser.'')
      | OpenFails e \<Rightarrow> Inl e
      | _ \<Rightarrow> Inr db)"

definition addRecord :: "nat \<Rightarrow> form_data \<Rightarrow> idb \<Rightarrow> (js_error + nat) \<times> idb" where
  "addRecord now recordData db0 =
     (case openDB db0 of
        Inl error \<Rightarrow> (Inl (Error IDB_ERROR_MESSAGE), db0)
      | Inr db \<Rightarrow>
          (let recordObject = form_data.extend recordData (record_object.fields now)
           in case store_add recordObject db of
                Inl e \<Rightarrow> (Inl e, db0)
              | Inr (key, db') \<Rightarrow> (Inr key, db')))"

definition getAllRecords :: "idb \<Rightarrow> js_error + attendance list" where
  "getAllRecords db0 =
     (case openDB db0 of
        Inl error \<Rightarrow> Inl (Error IDB_ERROR_MESSAGE)
      | Inr db \<Rightarrow>
          (case store_getAll db of
             Inl e \<Rightarrow> Inl e
           | Inr result \<Rightarrow> Inr (rev result)))"

definition deleteRecord :: "nat \<Rightarrow> idb \<Rightarrow> (js_error + bool) \<times> idb" where
  "deleteRecord ident db0 =
     (case openDB db0 of
        Inl error \<Rightarrow> (Inl (Error IDB_ERROR_MESSAGE), db0)
      | Inr db \<Rightarrow>
          (case store_delete ident db of
             Inl e \<Rightarrow> (Inl e, db0)
           | Inr db' \<Rightarrow> (Inr True, db')))"

definition deleteAllRecords :: "idb \<Rightarrow> (js_error + bool) \<times> idb" where
  "deleteAllRecords db0 =
     (case openDB db0 of
        Inl error \<Rightarrow> (Inl (Error IDB_ERROR_MESSAGE), db0)
      | Inr db \<Rightarrow>
          (case store_clear db of
             Inl e \<Rightarrow> (Inl e, db0)
           | Inr db' \<Rightarrow> (Inr True, db')))"

text \<open>
  A history of adapter calls, and the database each call leaves behind whether it
  succeeds or not. \<open>Insert\<close> carries the value of \<^verbatim>\<open>Date.now()\<close> at the call.
\<close>

datatype adapter_call = Insert nat form_data | ListAll | DeleteOne nat | DeleteAll

fun perform :: "adapter_call \<Rightarrow> idb \<Rightarrow> idb" where
  "perform (Insert now recordData) db = snd (addRecord now recordData db)"
| "perform ListAll db = db"
| "perform (DeleteOne ident) db = snd (deleteRecord ident db)"
| "perform DeleteAll db = snd (deleteAllRecords db)"

text \<open>
  What IndexedDB guarantees of an object store with a key generator: the records are
  listed in ascending key order, keys are unique, and every key in use lies below the
  generator's current number.
\<close>

definition idb_ok :: "idb \<Rightarrow> bool" where
  "idb_ok db =
     (sorted (map id' (names db)) \<and> distinct (map id' (names db)) \<and>
      (\<forall>r \<in> set (names db). id' r < keyGenerator db))"

section \<open>The \<^verbatim>\<open>App\<close> component\<close>

subsection \<open>State\<close>

text \<open>
  The record \<open>app\<close> holds the component's \<^verbatim>\<open>useState\<close> cells under their own names, the
  three timers its effects create with \<^verbatim>\<open>setTimeout\<close> (the milliseconds left, \<open>None\<close> when
  no timer is running), and what the component reads from its surroundings: the
  IndexedDB database, the \<^verbatim>\<open>localStorage\<close> entry \<^verbatim>\<open>eventConfig\<close> (\<open>None\<close> when absent; only
  this program writes it), \<^verbatim>\<open>Date.now()\<close>, the ISO date of today
  (\<^verbatim>\<open>new Date().toISOString().split('T')[0]\<close>) and the data URL that \<^verbatim>\<open>canvas.toDataURL\<close>
  would return. The pixels of the canvas are not modelled. \<open>calls\<close> is a history
  variable: the adapter calls made so far. \<open>fetching\<close> is the promise of a
  \<^verbatim>\<open>fetchRecords()\<close> call that a handler has made without \<^verbatim>\<open>await\<close> and that the storage
  has not answered yet, kept as the \<^verbatim>\<open>message\<close> its closure holds.

  The \<^verbatim>\<open>canvas\<close> element belongs to \<^verbatim>\<open>FormView\<close>, which is rendered exactly on the page
  \<^verbatim>\<open>'form'\<close>, so \<^verbatim>\<open>canvasRef.current\<close> is non-null exactly there.
\<close>

datatype page = Setup | Form | Records

record event_config =
  activityName :: string
  venue :: string
  eventDate :: string

record app =
  formData :: form_data
  storedRecords :: "attendance list"
  eventConfig :: event_config
  message :: string
  isDBReady :: bool
  confirmClear :: bool
  confirmDeleteId :: "nat option"
  currentPage :: page
  signatureCaptured :: bool
  clearTimer :: "nat option"
  deleteTimer :: "nat option"
  successTimer :: "nat option"
  indexedDB :: idb
  localStorage :: "event_config option"
  clock :: nat
  today :: string
  canvasPNG :: string
  calls :: "adapter_call list"
  fetching :: "string option"

definition initialApp :: "idb \<Rightarrow> event_config option \<Rightarrow> nat \<Rightarrow> string \<Rightarrow> string \<Rightarrow> app" where
  "initialApp db saved now date png =
     \<lparr>formData = initialFormData, storedRecords = [],
      eventConfig = \<lparr>activityName = '''', venue = '''', eventDate = date\<rparr>,
      message = '''', isDBReady = False, confirmClear = False, confirmDeleteId = None,
      currentPage = Setup, signatureCaptured = False,
      clearTimer = None, deleteTimer = None, successTimer = None,
      indexedDB = db, localStorage = saved, clock = now, today = date, canvasPNG = png,
      calls = [], fetching = None\<rparr>"

definition canvasRef :: "app \<Rightarrow> bool" where
  "canvasRef s = (currentPage s = Form)"

subsection \<open>Handlers\<close>

text \<open>
  A handler runs from the state it was rendered with. The storage call it awaits is
  answered before anything else happens; no handler updates state before that \<^verbatim>\<open>await\<close>,
  so no render falls in between. Its state updates are applied in program order.

  \<^verbatim>\<open>fetchRecords\<close> is a \<^verbatim>\<open>useCallback\<close> that closes over the \<^verbatim>\<open>message\<close> of the render it was
  created in; \<open>msg\<close> is that message. It calls \<^verbatim>\<open>getAllRecords\<close> at once
  (\<open>startFetchRecords\<close>) and makes its updates when the storage has answered
  (\<open>finishFetchRecords\<close>). A handler calls \<^verbatim>\<open>fetchRecords()\<close> without \<^verbatim>\<open>await\<close>: the handler's
  own updates are rendered first, with the effects of that render, and the updates of
  its \<^verbatim>\<open>fetchRecords\<close>, which is the one of the render before, come after that
  (\<open>resolveFetch\<close> below).
\<close>

definition startFetchRecords :: "string \<Rightarrow> app \<Rightarrow> app" where
  "startFetchRecords msg s = s\<lparr>calls := calls s @ [ListAll], fetching := Some msg\<rparr>"

definition finishFetchRecords :: "string \<Rightarrow> app \<Rightarrow> app" where
  "finishFetchRecords msg s =
     (case getAllRecords (indexedDB s) of
        Inr records \<Rightarrow>
          (let s1 = s\<lparr>storedRecords := records, isDBReady := True\<rparr>
           in if \<not> str_includes msg ''success'' \<and> \<not> str_includes msg ''confirm''
                 \<and> \<not> str_includes msg ''SURE''
              then s1\<lparr>message := ''''\<rparr> else s1)
      | Inl error \<Rightarrow> s\<lparr>message := IDB_ERROR_MESSAGE, isDBReady := False\<rparr>)"

text \<open>The call and its answer in one, for where nothing happens in between.\<close>

definition fetchRecords :: "string \<Rightarrow> app \<Rightarrow> app" where
  "fetchRecords msg s = finishFetchRecords msg (s\<lparr>calls := calls s @ [ListAll]\<rparr>)"

definition handleClearSignature :: "app \<Rightarrow> app" where
  "handleClearSignature s = (if canvasRef s then s\<lparr>signatureCaptured := False\<rparr> else s)"

text \<open>
  \<^verbatim>\<open>handleInputChange\<close> serves the inputs named \<^verbatim>\<open>completeName\<close>, \<^verbatim>\<open>sex\<close>, \<^verbatim>\<open>designation\<close> and
  \<^verbatim>\<open>division\<close>; \<^verbatim>\<open>handleStatusChange\<close> the check boxes \<^verbatim>\<open>pwd\<close>, \<^verbatim>\<open>senior\<close>, \<^verbatim>\<open>osy\<close>;
  \<^verbatim>\<open>handleConfigChange\<close> the inputs \<^verbatim>\<open>activityName\<close>, \<^verbatim>\<open>venue\<close>, \<^verbatim>\<open>eventDate\<close>.
\<close>

datatype input_name = CompleteName | Sex | Designation | Division

datatype status_name = Pwd | Senior | Osy

datatype config_name = ActivityName | Venue | EventDate

fun setField :: "input_name \<Rightarrow> string \<Rightarrow> form_data \<Rightarrow> form_data" where
  "setField CompleteName v prev = prev\<lparr>completeName := v\<rparr>"
| "setField Sex v prev = prev\<lparr>sex := v\<rparr>"
| "setField Designation v prev = prev\<lparr>designation := v\<rparr>"
| "setField Division v prev = prev\<lparr>division := v\<rparr>"

fun setStatus :: "status_name \<Rightarrow> bool \<Rightarrow> status_flags \<Rightarrow> status_flags" where
  "setStatus Pwd b prev = prev\<lparr>pwd := b\<rparr>"
| "setStatus Senior b prev = prev\<lparr>senior := b\<rparr>"
| "setStatus Osy b prev = prev\<lparr>osy := b\<rparr>"

fun setConfig :: "config_name \<Rightarrow> string \<Rightarrow> event_config \<Rightarrow> event_config" where
  "setConfig ActivityName v prev = prev\<lparr>activityName := v\<rparr>"
| "setConfig Venue v prev = prev\<lparr>venue := v\<rparr>"
| "setConfig EventDate v prev = prev\<lparr>eventDate := v\<rparr>"

definition handleInputChange :: "input_name \<Rightarrow> string \<Rightarrow> app \<Rightarrow> app" where
  "handleInputChange name v s =
     s\<lparr>formData := setField name v (formData s),
       confirmClear := False, confirmDeleteId := None\<rparr>"

definition handleConfigChange :: "config_name \<Rightarrow> string \<Rightarrow> app \<Rightarrow> app" where
  "handleConfigChange name v s =
     (let newConfig = setConfig name v (eventConfig s)
      in s\<lparr>eventConfig := newConfig, localStorage := Some newConfig\<rparr>)"

definition handleStatusChange :: "status_name \<Rightarrow> bool \<Rightarrow> app \<Rightarrow> app" where
  "handleStatusChange name checked s =
     s\<lparr>formData := (formData s)\<lparr>status := setStatus name checked (status (formData s))\<rparr>,
       confirmClear := False, confirmDeleteId := None\<rparr>"

text \<open>\<^verbatim>\<open>a || b\<close> on strings: the empty string is falsy.\<close>

definition orElse :: "string \<Rightarrow> string \<Rightarrow> string" where
  "orElse a b = (if a = [] then b else a)"

definition handleSubmit :: "app \<Rightarrow> app" where
  "handleSubmit s =
     (if trim (completeName (formData s)) = [] \<or> trim (designation (formData s)) = []
         \<or> trim (division (formData s)) = []
      then s\<lparr>message := ''Please fill in all required fields (indicated by *).''\<rparr>
      else if \<not> signatureCaptured s
      then s\<lparr>message := ''Please provide a signature in section 6.''\<rparr>
      else if \<not> canvasRef s
      then s\<lparr>message := ''Error: Signature canvas not found.''\<rparr>
      else if \<not> isDBReady s
      then s\<lparr>message := ''Database not ready. Cannot save.''\<rparr>
      else
        (let signatureData = canvasPNG s;
             newRecord = (formData s)\<lparr>signature := Some signatureData\<rparr>;
             s1 = s\<lparr>calls := calls s @ [Insert (clock s) newRecord]\<rparr>
         in case addRecord (clock s) newRecord (indexedDB s) of
              (Inr key, db') \<Rightarrow>
                (startFetchRecords (message s)
                   ((handleClearSignature (s1\<lparr>indexedDB := db', formData := initialFormData\<rparr>))
                      \<lparr>message := IDB_SUCCESS_MESSAGE\<rparr>))
                  \<lparr>confirmClear := False, confirmDeleteId := None\<rparr>
            | (Inl error, db') \<Rightarrow>
                s1\<lparr>indexedDB := db',
                   message := orElse (error_message error) IDB_ERROR_MESSAGE\<rparr>))"

text \<open>
  \<^verbatim>\<open>storedRecords.find(r => r.id === id)?.completeName\<close> is \<^verbatim>\<open>undefined\<close> when no record has
  the key, and the template literal prints it as such.
\<close>

definition recordName :: "nat \<Rightarrow> attendance list \<Rightarrow> string" where
  "recordName ident records =
     (case find (\<lambda>r. id' r = ident) records of
        Some r \<Rightarrow> completeName r
      | None \<Rightarrow> ''undefined'')"

definition confirmDeleteMessage :: "string \<Rightarrow> string" where
  "confirmDeleteMessage name =
     ''Click the icon again next to '' @ [CHR 0x22] @ name @ [CHR 0x22]
       @ '' to CONFIRM deletion. This action is irreversible.''"

definition handleDelete :: "nat \<Rightarrow> app \<Rightarrow> app" where
  "handleDelete ident s =
     (if \<not> isDBReady s then s
      else if confirmDeleteId s = Some ident
      then
        (let s1 = s\<lparr>calls := calls s @ [DeleteOne ident]\<rparr>
         in case deleteRecord ident (indexedDB s) of
              (Inr ok, db') \<Rightarrow>
                startFetchRecords (message s)
                  (s1\<lparr>indexedDB := db', message := IDB_DELETE_MESSAGE,
                      confirmDeleteId := None\<rparr>)
            | (Inl error, db') \<Rightarrow>
                s1\<lparr>indexedDB := db',
                   message := orElse (error_message error) ''Error deleting record.''\<rparr>)
      else
        s\<lparr>message := confirmDeleteMessage (recordName ident (storedRecords s)),
          confirmDeleteId := Some ident, confirmClear := False\<rparr>)"

definition handleClearAll :: "app \<Rightarrow> app" where
  "handleClearAll s =
     (if \<not> isDBReady s then s
      else if confirmClear s
      then
        (let s1 = s\<lparr>calls := calls s @ [DeleteAll]\<rparr>
         in case deleteAllRecords (indexedDB s) of
              (Inr ok, db') \<Rightarrow>
                startFetchRecords (message s)
                  (s1\<lparr>indexedDB := db', message := IDB_CLEAR_ALL_MESSAGE,
                      confirmClear := False, confirmDeleteId := None\<rparr>)
            | (Inl error, db') \<Rightarrow>
                s1\<lparr>indexedDB := db',
                   message := orElse (error_message error) ''Error clearing all records.''\<rparr>)
      else
        s\<lparr>message := ''ARE YOU SURE? Click this button again to CONFIRM deleting ALL records.'',
          confirmClear := True, confirmDeleteId := None\<rparr>)"

text \<open>
  The three tabs. Only the tab \<^verbatim>\<open>Saved Records\<close> resets the confirmations. The listener
  \<^verbatim>\<open>startDrawing\<close> is attached to the canvas, so it runs on the page \<^verbatim>\<open>'form'\<close> only.
\<close>

definition setCurrentPage :: "page \<Rightarrow> app \<Rightarrow> app" where
  "setCurrentPage p s =
     (if p = Records
      then s\<lparr>currentPage := Records, confirmClear := False, confirmDeleteId := None\<rparr>
      else s\<lparr>currentPage := p\<rparr>)"

definition startDrawing :: "app \<Rightarrow> app" where
  "startDrawing s =
     (if \<not> canvasRef s \<or> \<not> isDBReady s then s else s\<lparr>signatureCaptured := True\<rparr>)"

subsection \<open>Effects\<close>

text \<open>
  After a render React runs each \<^verbatim>\<open>useEffect\<close> whose dependencies differ from those of the
  render before: first the cleanup that the effect returned last time, then the effect.
  \<open>prev\<close> is the state of the render before and \<open>cur\<close> the state just rendered.

  The first effect depends on \<^verbatim>\<open>fetchRecords\<close>, which is recreated when \<^verbatim>\<open>message\<close> changes.
  It reloads the configuration and fetches the records; the fetch resolves after the
  other effects of the same render have run.
\<close>

definition loadConfigAndFetch :: "app \<Rightarrow> app" where
  "loadConfigAndFetch s =
     fetchRecords (message s)
       (case localStorage s of
          Some savedConfig \<Rightarrow> s\<lparr>eventConfig := savedConfig\<rparr>
        | None \<Rightarrow> s\<lparr>eventConfig := (eventConfig s)\<lparr>eventDate := today s\<rparr>\<rparr>)"

definition clearTimerEffect :: "app \<Rightarrow> app \<Rightarrow> app" where
  "clearTimerEffect prev cur =
     (if confirmClear cur = confirmClear prev then cur
      else cur\<lparr>clearTimer := (if confirmClear cur then Some 5000 else None)\<rparr>)"

definition deleteTimerEffect :: "app \<Rightarrow> app \<Rightarrow> app" where
  "deleteTimerEffect prev cur =
     (if confirmDeleteId cur = confirmDeleteId prev \<and> message cur = message prev then cur
      else cur\<lparr>deleteTimer := (if confirmDeleteId cur \<noteq> None then Some 5000 else None)\<rparr>)"

definition successTimerEffect :: "app \<Rightarrow> app \<Rightarrow> app" where
  "successTimerEffect prev cur =
     (if message cur = message prev then cur
      else cur\<lparr>successTimer :=
                 (if str_includes (message cur) ''success'' then Some 3000 else None)\<rparr>)"

definition runEffects :: "app \<Rightarrow> app \<Rightarrow> app" where
  "runEffects prev cur =
     (let s = successTimerEffect prev (deleteTimerEffect prev (clearTimerEffect prev cur))
      in if message cur = message prev then s else loadConfigAndFetch s)"

text \<open>
  The fetch started by the first effect may change \<^verbatim>\<open>message\<close> and so cause one more
  render whose effects run in turn. After that nothing changes any more
  (lemma \<open>render_settled\<close>), so two rounds are all there are.
\<close>

definition render :: "app \<Rightarrow> app \<Rightarrow> app" where
  "render prev cur = runEffects cur (runEffects prev cur)"

text \<open>On mount every effect runs. No timer is created: nothing is pending yet.\<close>

definition mount :: "app \<Rightarrow> app" where
  "mount s = render s (loadConfigAndFetch s)"

text \<open>
  The storage answers the \<^verbatim>\<open>fetchRecords()\<close> that a handler started: \<^verbatim>\<open>fetchRecords\<close> makes its
  updates, and the render they cause follows. This comes after the render of the
  handler's own updates, which is the state \<open>r\<close>, and so after the answer to the fetch
  that the effect of that render may have started. All listings of one event read the
  same store.
\<close>

definition resolveFetch :: "app \<Rightarrow> app" where
  "resolveFetch r =
     (case fetching r of
        None \<Rightarrow> r
      | Some msg \<Rightarrow>
          (let r0 = r\<lparr>fetching := None\<rparr> in render r0 (finishFetchRecords msg r0)))"

subsection \<open>Timers\<close>

text \<open>
  The callbacks of the three \<^verbatim>\<open>setTimeout\<close> calls. The callback of the per-record timer
  reads the \<^verbatim>\<open>message\<close> of the render that created the timer; since \<^verbatim>\<open>message\<close> is a
  dependency of that effect, this is the current message.
\<close>

definition onSuccessTimeout :: "app \<Rightarrow> app" where
  "onSuccessTimeout s = s\<lparr>message := ''''\<rparr>"

definition onClearTimeout :: "app \<Rightarrow> app" where
  "onClearTimeout s = s\<lparr>confirmClear := False\<rparr>"

definition onDeleteTimeout :: "app \<Rightarrow> app" where
  "onDeleteTimeout s =
     (let s1 = s\<lparr>confirmDeleteId := None\<rparr>
      in if str_includes (message s) ''Click the trash icon again''
         then s1\<lparr>message := ''''\<rparr> else s1)"

text \<open>
  One millisecond passes: every running timer counts down, and a timer that reaches
  zero fires, followed by the render its callback causes.
\<close>

definition countdown :: "nat option \<Rightarrow> nat option" where
  "countdown t = (case t of None \<Rightarrow> None | Some n \<Rightarrow> Some (n - 1))"

definition fireSuccessTimer :: "app \<Rightarrow> app" where
  "fireSuccessTimer s =
     (if successTimer s = Some 0
      then render s (onSuccessTimeout (s\<lparr>successTimer := None\<rparr>)) else s)"

definition fireClearTimer :: "app \<Rightarrow> app" where
  "fireClearTimer s =
     (if clearTimer s = Some 0
      then render s (onClearTimeout (s\<lparr>clearTimer := None\<rparr>)) else s)"

definition fireDeleteTimer :: "app \<Rightarrow> app" where
  "fireDeleteTimer s =
     (if deleteTimer s = Some 0
      then render s (onDeleteTimeout (s\<lparr>deleteTimer := None\<rparr>)) else s)"

definition tick :: "app \<Rightarrow> app" where
  "tick s =
     fireDeleteTimer (fireClearTimer (fireSuccessTimer
       (s\<lparr>clock := clock s + 1,
          clearTimer := countdown (clearTimer s),
          deleteTimer := countdown (deleteTimer s),
          successTimer := countdown (successTimer s)\<rparr>)))"

primrec elapse :: "nat \<Rightarrow> app \<Rightarrow> app" where
  "elapse 0 s = s"
| "elapse (Suc n) s = elapse n (tick s)"

subsection \<open>Events\<close>

text \<open>
  What can happen to the running application: the user acts on a control, a millisecond
  passes, or the surroundings change (the browser's storage starts or stops failing,
  the drawing on the canvas changes, the date changes). A user event runs its handler
  and the render that follows; after a handler that may have called \<^verbatim>\<open>fetchRecords()\<close>,
  the answer to that call follows too.
\<close>

datatype event =
    InputChange input_name string
  | StatusChange status_name bool
  | ConfigChange config_name string
  | StartDrawing
  | ClearSignature
  | Submit
  | Delete nat
  | ClearAll
  | GoTo page
  | Tick
  | Browser idb_fault
  | Drawn string
  | NewDay string

fun step :: "event \<Rightarrow> app \<Rightarrow> app" where
  "step (InputChange name v) s = render s (handleInputChange name v s)"
| "step (StatusChange name checked) s = render s (handleStatusChange name checked s)"
| "step (ConfigChange name v) s = render s (handleConfigChange name v s)"
| "step StartDrawing s = render s (startDrawing s)"
| "step ClearSignature s = render s (handleClearSignature s)"
| "step Submit s = resolveFetch (render s (handleSubmit s))"
| "step (Delete ident) s = resolveFetch (render s (handleDelete ident s))"
| "step ClearAll s = resolveFetch (render s (handleClearAll s))"
| "step (GoTo p) s = render s (setCurrentPage p s)"
| "step Tick s = tick s"
| "step (Browser f) s = s\<lparr>indexedDB := (indexedDB s)\<lparr>fault := f\<rparr>\<rparr>"
| "step (Drawn png) s = s\<lparr>canvasPNG := png\<rparr>"
| "step (NewDay date) s = s\<lparr>today := date\<rparr>"

text \<open>
  The controls the views offer: \<^verbatim>\<open>FormView\<close> on the page \<^verbatim>\<open>'form'\<close> (its inputs and the
  signature button carry \<^verbatim>\<open>disabled={!isDBReady}\<close>, the radio buttons have the values
  \<^verbatim>\<open>M\<close> and \<^verbatim>\<open>F\<close>, the submit button is disabled while a required text is blank),
  \<^verbatim>\<open>ConfigView\<close> on \<^verbatim>\<open>'setup'\<close>, \<^verbatim>\<open>RecordsView\<close> on \<^verbatim>\<open>'records'\<close> (one delete button per listed
  record, listed only when \<^verbatim>\<open>isDBReady\<close>; the clear-all button is disabled when the
  database is not ready or the list is empty).
\<close>

fun enabled :: "event \<Rightarrow> app \<Rightarrow> bool" where
  "enabled (InputChange name v) s =
     (currentPage s = Form \<and> isDBReady s \<and> (name = Sex \<longrightarrow> v = ''M'' \<or> v = ''F''))"
| "enabled (StatusChange name checked) s = (currentPage s = Form \<and> isDBReady s)"
| "enabled (ConfigChange name v) s = (currentPage s = Setup)"
| "enabled StartDrawing s = (currentPage s = Form)"
| "enabled ClearSignature s = (currentPage s = Form \<and> isDBReady s)"
| "enabled Submit s =
     (currentPage s = Form \<and> isDBReady s \<and> trim (completeName (formData s)) \<noteq> []
      \<and> trim (designation (formData s)) \<noteq> [] \<and> trim (division (formData s)) \<noteq> [])"
| "enabled (Delete ident) s =
     (currentPage s = Records \<and> isDBReady s \<and> ident \<in> id' ` set (storedRecords s))"
| "enabled ClearAll s = (currentPage s = Records \<and> isDBReady s \<and> storedRecords s \<noteq> [])"
| "enabled (GoTo p) s = True"
| "enabled Tick s = True"
| "enabled (Browser f) s = True"
| "enabled (Drawn png) s = (currentPage s = Form)"
| "enabled (NewDay date) s = True"

inductive reachable :: "app \<Rightarrow> bool" where
  mounted: "idb_ok db \<Longrightarrow> reachable (mount (initialApp db saved now date png))"
| after: "reachable s \<Longrightarrow> enabled e s \<Longrightarrow> reachable (step e s)"

section \<open>Example data\<close>

text \<open>
  Two records as the form submits them, and the databases that hold the first and
  both.
\<close>

definition jane :: form_data where
  "jane = \<lparr>completeName = ''Jane Doe'', sex = ''F'', designation = ''Engineer'',
      division = ''R&D'', status = \<lparr>pwd = False, senior = False, osy = False\<rparr>,
      signature = Some ''data:image/png;base64,AAA''\<rparr>"

definition john :: form_data where
  "john = \<lparr>completeName = ''John Roe'', sex = ''M'', designation = ''Clerk'',
      division = ''Records'', status = \<lparr>pwd = False, senior = True, osy = False\<rparr>,
      signature = Some ''data:image/png;base64,BBB''\<rparr>"

definition oneDB :: idb where
  "oneDB = snd (addRecord 1000 jane emptyDB)"

definition twoDB :: idb where
  "twoDB = snd (addRecord 2000 john oneDB)"

section \<open>Invariants and example states\<close>

text \<open>At most one of the two confirmations is pending.\<close>

definition one_pending :: "app \<Rightarrow> bool" where
  "one_pending s = (\<not> confirmClear s \<or> confirmDeleteId s = None)"

text \<open>
  The application started on the database with both example records and a saved event
  configuration, then shown on the page of saved records, then with the deletion of
  record 1 requested once, respectively the deletion of all records requested once.
\<close>

definition summit :: event_config where
  "summit = \<lparr>activityName = ''Regional Tech Summit'', venue = ''Grand Ballroom'',
      eventDate = ''2026-11-03''\<rparr>"

definition appStart :: app where
  "appStart =
     mount (initialApp twoDB (Some summit) 0 ''2026-11-03'' ''data:image/png;base64,CCC'')"

definition recordsPage :: app where
  "recordsPage = step (GoTo Records) appStart"

definition pendingDelete :: app where
  "pendingDelete = step (Delete 1) recordsPage"

definition pendingClear :: app where
  "pendingClear = step ClearAll recordsPage"

text \<open>
  From either pending state, the user turns to the page of the event set-up; or the
  browser's storage starts to fail requests.
\<close>

definition setupPendingClear :: app where
  "setupPendingClear = step (GoTo Setup) pendingClear"

definition setupPendingDelete :: app where
  "setupPendingDelete = step (GoTo Setup) pendingDelete"

definition failingDelete :: app where
  "failingDelete = step (Browser (RequestFails (Error ''The transaction was aborted.''))) pendingDelete"

definition failingClear :: app where
  "failingClear = step (Browser (OpenFails (Error ''The database is blocked.''))) pendingClear"

text \<open>
  The entry form, opened and empty; filled in and signed; and filled in while the
  browser's storage refuses requests for lack of space.
\<close>

definition emptyForm :: app where
  "emptyForm = step (GoTo Form) appStart"

definition filledForm :: app where
  "filledForm =
     step StartDrawing (step (StatusChange Senior True)
       (step (InputChange Division ''Health'') (step (InputChange Designation ''Nurse'')
         (step (InputChange Sex ''F'') (step (InputChange CompleteName ''Ana Cruz'')
           emptyForm)))))"

definition ana :: form_data where
  "ana = \<lparr>completeName = ''Ana Cruz'', sex = ''F'', designation = ''Nurse'',
      division = ''Health'', status = \<lparr>pwd = False, senior = True, osy = False\<rparr>,
      signature = None\<rparr>"

definition quotaForm :: app where
  "quotaForm = step (Browser (RequestFails (Error ''QuotaExceededError''))) filledForm"

text \<open>
  The application started on 2026-11-03 with no event configuration saved and left
  open into the next day; then the entry form is opened, filled in and signed.
\<close>

definition overnight :: app where
  "overnight =
     step StartDrawing (step (InputChange Division ''Health'')
       (step (InputChange Designation ''Nurse'') (step (InputChange CompleteName ''Ana Cruz'')
         (step (GoTo Form) (step (NewDay ''2026-11-04'')
           (mount (initialApp twoDB None 0 ''2026-11-03'' ''data:image/png;base64,CCC'')))))))"

text \<open>
  Predicates for reasoning about time. \<open>listed\<close>: the list shows the record's delete
  button, the record is in the store and the storage works. \<open>pending_for\<close>: the record's
  confirmation is pending and its timer has at least so many milliseconds left.
  \<open>counting\<close>: it is pending, its timer has exactly so many milliseconds left and no other
  timer runs. \<open>flashing\<close>: it is pending behind a displayed message whose timer fires
  first. \<open>at_rest\<close>: nothing is pending and no timer runs. \<open>timers_ok\<close>: a running
  clear-all timer means clear-all is pending, and a running message timer means the
  message contains \<^verbatim>\<open>success\<close>.
\<close>

definition listed :: "nat \<Rightarrow> app \<Rightarrow> bool" where
  "listed ident s =
     (enabled (Delete ident) s \<and> fault (indexedDB s) = Healthy \<and>
      ident \<in> id' ` set (names (indexedDB s)))"

definition pending_for :: "nat \<Rightarrow> nat \<Rightarrow> app \<Rightarrow> bool" where
  "pending_for ident left s =
     (confirmDeleteId s = Some ident \<and>
      (case deleteTimer s of None \<Rightarrow> False | Some q \<Rightarrow> left \<le> q))"

definition counting :: "nat \<Rightarrow> nat \<Rightarrow> app \<Rightarrow> bool" where
  "counting ident left s =
     (confirmDeleteId s = Some ident \<and> deleteTimer s = Some left \<and>
      clearTimer s = None \<and> successTimer s = None)"

definition flashing :: "nat \<Rightarrow> nat \<Rightarrow> app \<Rightarrow> bool" where
  "flashing ident left s =
     (confirmDeleteId s = Some ident \<and> message s \<noteq> '''' \<and> successTimer s = Some left \<and>
      (case deleteTimer s of None \<Rightarrow> False | Some q \<Rightarrow> left < q))"

definition at_rest :: "app \<Rightarrow> bool" where
  "at_rest s =
     (confirmDeleteId s = None \<and> deleteTimer s = None \<and> clearTimer s = None \<and>
      successTimer s = None)"

definition timers_ok :: "app \<Rightarrow> bool" where
  "timers_ok s =
     ((clearTimer s = None \<or> confirmClear s) \<and>
      (successTimer s = None \<or> str_includes (message s) ''success''))"

text \<open>
  A database whose only record bears a name that contains \<^verbatim>\<open>success\<close>, and the
  application started on it and showing the saved records.
\<close>

definition ed :: form_data where
  "ed = \<lparr>completeName = ''Ed successor'', sex = ''M'', designation = ''Heir'',
      division = ''Estate'', status = \<lparr>pwd = False, senior = False, osy = False\<rparr>,
      signature = Some ''data:image/png;base64,DDD''\<rparr>"

definition edDB :: idb where
  "edDB = snd (addRecord 1000 ed emptyDB)"

definition edApp :: app where
  "edApp = step (GoTo Records)
     (mount (initialApp edDB None 0 ''2026-11-03'' ''data:image/png;base64,CCC''))"

section \<open>Properties of the adapter\<close>

subsection \<open>The object store keeps its guarantees\<close>

lemma insort_key_last:
  "\<forall>x \<in> set xs. f x < f r \<Longrightarrow> insort_key f r xs = xs @ [r]"
  by (induction xs) auto

lemma idb_ok_emptyDB: "idb_ok emptyDB"
  by (simp add: idb_ok_def emptyDB_def)

lemma id'_extend [simp]: "id' (record_object.extend r (attendance.fields k)) = k"
  by (simp add: record_object.defs attendance.defs)

lemma timestamp_extend [simp]:
  "timestamp (record_object.extend (form_data.extend r (record_object.fields n)) (attendance.fields k)) = n"
  by (simp add: form_data.defs record_object.defs attendance.defs)

lemma truncate_extend [simp]:
  "form_data.truncate (record_object.extend (form_data.extend r (record_object.fields n)) (attendance.fields k)) = r"
  by (simp add: form_data.defs record_object.defs attendance.defs)

lemma store_add_healthy:
  assumes "idb_ok db" and "\<forall>e. fault db \<noteq> RequestFails e"
  shows "store_add ro db =
     Inr (keyGenerator db,
          db\<lparr>names := names db @ [record_object.extend ro (attendance.fields (keyGenerator db))],
             keyGenerator := keyGenerator db + 1\<rparr>)"
proof -
  have "insort_key id' (record_object.extend ro (attendance.fields (keyGenerator db))) (names db)
      = names db @ [record_object.extend ro (attendance.fields (keyGenerator db))]"
    using assms(1) by (intro insort_key_last) (simp add: idb_ok_def)
  then show ?thesis
    using assms(2) by (cases "fault db") (simp_all add: store_add_def Let_def)
qed

lemma addRecord_healthy:
  assumes "idb_ok db" and "fault db = Healthy"
  shows "addRecord now rd db =
     (Inr (keyGenerator db),
      db\<lparr>names := names db @ [record_object.extend (form_data.extend rd (record_object.fields now))
                                  (attendance.fields (keyGenerator db))],
         keyGenerator := keyGenerator db + 1\<rparr>)"
  using assms by (simp add: addRecord_def openDB_def store_add_healthy)

lemma getAllRecords_healthy:
  "fault db = Healthy \<Longrightarrow> getAllRecords db = Inr (rev (names db))"
  by (simp add: getAllRecords_def openDB_def store_getAll_def)

lemma getAllRecords_Inr:
  "getAllRecords db = Inr rs \<Longrightarrow> rs = rev (names db)"
  by (auto simp: getAllRecords_def openDB_def store_getAll_def split: sum.splits idb_fault.splits)

lemma deleteRecord_healthy:
  "fault db = Healthy \<Longrightarrow>
     deleteRecord k db = (Inr True, db\<lparr>names := filter (\<lambda>r. id' r \<noteq> k) (names db)\<rparr>)"
  by (simp add: deleteRecord_def openDB_def store_delete_def)

lemma deleteAllRecords_healthy:
  "fault db = Healthy \<Longrightarrow> deleteAllRecords db = (Inr True, db\<lparr>names := []\<rparr>)"
  by (simp add: deleteAllRecords_def openDB_def store_clear_def)

text \<open>What a failing call does: nothing to the database.\<close>

lemma addRecord_cases:
  "addRecord now rd db = (r, db') \<Longrightarrow>
     (\<exists>e. r = Inl e \<and> db' = db) \<or>
     (r = Inr (keyGenerator db) \<and>
      db' = db\<lparr>names := insort_key id' (record_object.extend (form_data.extend rd (record_object.fields now))
                                  (attendance.fields (keyGenerator db))) (names db),
         keyGenerator := keyGenerator db + 1\<rparr>)"
  by (auto simp: addRecord_def openDB_def store_add_def Let_def split: idb_fault.splits sum.splits)

lemma deleteRecord_cases:
  "deleteRecord k db = (r, db') \<Longrightarrow>
     (\<exists>e. r = Inl e \<and> db' = db) \<or>
     (r = Inr True \<and> db' = db\<lparr>names := filter (\<lambda>r. id' r \<noteq> k) (names db)\<rparr>)"
  by (auto simp: deleteRecord_def openDB_def store_delete_def split: idb_fault.splits sum.splits)

lemma deleteAllRecords_cases:
  "deleteAllRecords db = (r, db') \<Longrightarrow>
     (\<exists>e. r = Inl e \<and> db' = db) \<or> (r = Inr True \<and> db' = db\<lparr>names := []\<rparr>)"
  by (auto simp: deleteAllRecords_def openDB_def store_clear_def split: idb_fault.splits sum.splits)

lemma idb_ok_insort:
  assumes "idb_ok db"
  shows "idb_ok (db\<lparr>names := insort_key id' (record_object.extend ro (attendance.fields (keyGenerator db))) (names db),
         keyGenerator := Suc (keyGenerator db)\<rparr>)"
proof -
  let ?r = "record_object.extend ro (attendance.fields (keyGenerator db))"
  have eq: "insort_key id' ?r (names db) = names db @ [?r]"
    using assms by (intro insort_key_last) (simp add: idb_ok_def)
  show ?thesis
    using assms unfolding eq idb_ok_def
    by (auto simp: sorted_append less_imp_le)
qed

lemma idb_ok_filter:
  "idb_ok db \<Longrightarrow> idb_ok (db\<lparr>names := filter P (names db)\<rparr>)"
  by (auto simp: idb_ok_def sorted_filter distinct_map_filter)

lemma idb_ok_clear: "idb_ok db \<Longrightarrow> idb_ok (db\<lparr>names := []\<rparr>)"
  by (simp add: idb_ok_def)

lemma idb_ok_perform: "idb_ok db \<Longrightarrow> idb_ok (perform c db)"
proof (cases c)
  case (Insert now rd)
  assume ok: "idb_ok db"
  obtain r db' where a: "addRecord now rd db = (r, db')" by (cases "addRecord now rd db")
  from addRecord_cases [OF a] ok show ?thesis
    using Insert a by (auto simp: idb_ok_insort)
next
  case ListAll
  assume "idb_ok db" then show ?thesis using ListAll by simp
next
  case (DeleteOne k)
  assume ok: "idb_ok db"
  obtain r db' where a: "deleteRecord k db = (r, db')" by (cases "deleteRecord k db")
  from deleteRecord_cases [OF a] ok show ?thesis
    using DeleteOne a by (auto simp: idb_ok_filter)
next
  case DeleteAll
  assume ok: "idb_ok db"
  obtain r db' where a: "deleteAllRecords db = (r, db')" by (cases "deleteAllRecords db")
  from deleteAllRecords_cases [OF a] ok show ?thesis
    using DeleteAll a by (auto simp: idb_ok_clear)
qed

lemma keyGenerator_perform: "keyGenerator db \<le> keyGenerator (perform c db)"
proof (cases c)
  case (Insert now rd)
  obtain r db' where a: "addRecord now rd db = (r, db')" by (cases "addRecord now rd db")
  from addRecord_cases [OF a] show ?thesis using Insert a by auto
next
  case ListAll then show ?thesis by simp
next
  case (DeleteOne k)
  obtain r db' where a: "deleteRecord k db = (r, db')" by (cases "deleteRecord k db")
  from deleteRecord_cases [OF a] show ?thesis using DeleteOne a by auto
next
  case DeleteAll
  obtain r db' where a: "deleteAllRecords db = (r, db')" by (cases "deleteAllRecords db")
  from deleteAllRecords_cases [OF a] show ?thesis using DeleteAll a by auto
qed

lemma idb_ok_fold: "idb_ok db \<Longrightarrow> idb_ok (fold perform cs db)"
  by (induction cs arbitrary: db) (simp_all add: idb_ok_perform)

lemma keyGenerator_fold: "keyGenerator db \<le> keyGenerator (fold perform cs db)"
proof (induction cs arbitrary: db)
  case Nil show ?case by simp
next
  case (Cons c cs)
  have "keyGenerator db \<le> keyGenerator (perform c db)" by (rule keyGenerator_perform)
  also have "\<dots> \<le> keyGenerator (fold perform cs (perform c db))" by (rule Cons.IH)
  finally show ?case by simp
qed

lemma descending_rev:
  assumes "sorted (map f xs)" and "distinct (map f xs)" and "i < j" and "j < length xs"
  shows "f (rev xs ! j) < f (rev xs ! i)"
proof -
  let ?n = "length xs"
  have i: "rev xs ! i = xs ! (?n - Suc i)" and j: "rev xs ! j = xs ! (?n - Suc j)"
    using assms(3,4) by (simp_all add: rev_nth)
  have lt: "?n - Suc j < ?n - Suc i" and b: "?n - Suc i < ?n" using assms(3,4) by arith+
  have "map f xs ! (?n - Suc j) \<le> map f xs ! (?n - Suc i)"
    using assms(1) lt b by (intro sorted_nth_mono) simp_all
  moreover have "map f xs ! (?n - Suc j) \<noteq> map f xs ! (?n - Suc i)"
    using assms(2) lt b by (auto simp: distinct_conv_nth)
  ultimately show ?thesis using i j lt b by simp
qed

lemmas adapter_defs = addRecord_def getAllRecords_def deleteRecord_def deleteAllRecords_def
  openDB_def store_add_def store_getAll_def store_delete_def store_clear_def

lemma oneDB_eq:
  "oneDB = \<lparr>names = [record_object.extend (form_data.extend jane (record_object.fields 1000))
                         (attendance.fields 1)],
             keyGenerator = 2, fault = Healthy\<rparr>"
  by (simp add: oneDB_def adapter_defs emptyDB_def)

lemma twoDB_eq:
  "twoDB = \<lparr>names = [record_object.extend (form_data.extend jane (record_object.fields 1000))
                         (attendance.fields 1),
                      record_object.extend (form_data.extend john (record_object.fields 2000))
                         (attendance.fields 2)],
             keyGenerator = 3, fault = Healthy\<rparr>"
  by (simp add: twoDB_def oneDB_eq adapter_defs)

lemma idb_ok_oneDB: "idb_ok oneDB"
  by (simp add: oneDB_eq idb_ok_def)

lemma idb_ok_twoDB: "idb_ok twoDB"
  by (simp add: twoDB_eq idb_ok_def)

subsection \<open>Listing\<close>

text \<open>
  Claim C3. \<^verbatim>\<open>getAllRecords\<close> returns all stored records newest first. On a database that
  answers, the result is the whole store in reverse key order, so keys strictly
  descend along it, and an empty store gives the empty list, not an error. Keys follow
  insertion: when a record is inserted, then any adapter calls are made, then a second
  record is inserted and again any calls are made, every listing shows the second
  record before the first.
\<close>

theorem getAllRecords_newest_first:
  assumes ok: "idb_ok db0"
  shows "(fault db0 = Healthy \<longrightarrow>
            getAllRecords db0 = Inr (rev (names db0)) \<and>
            (\<forall>i j. i < j \<and> j < length (names db0) \<longrightarrow>
               id' (rev (names db0) ! j) < id' (rev (names db0) ! i)))
       \<and> (fault db0 = Healthy \<and> names db0 = [] \<longrightarrow> getAllRecords db0 = Inr [])
       \<and> (addRecord t1 a db0 = (Inr k1, db1) \<and>
            addRecord t2 b (fold perform cs1 db1) = (Inr k2, db2) \<and>
            getAllRecords (fold perform cs2 db2) = Inr rs \<and>
            i < length rs \<and> j < length rs \<and> id' (rs ! i) = k1 \<and> id' (rs ! j) = k2
            \<longrightarrow> j < i)"
proof (intro conjI allI impI)
  assume "fault db0 = Healthy"
  then show "getAllRecords db0 = Inr (rev (names db0))" by (rule getAllRecords_healthy)
next
  fix i j assume "i < j \<and> j < length (names db0)"
  then show "id' (rev (names db0) ! j) < id' (rev (names db0) ! i)"
    using ok by (intro descending_rev) (simp_all add: idb_ok_def)
next
  assume "fault db0 = Healthy \<and> names db0 = []"
  then show "getAllRecords db0 = Inr []" by (simp add: getAllRecords_healthy)
next
  assume h: "addRecord t1 a db0 = (Inr k1, db1) \<and>
            addRecord t2 b (fold perform cs1 db1) = (Inr k2, db2) \<and>
            getAllRecords (fold perform cs2 db2) = Inr rs \<and>
            i < length rs \<and> j < length rs \<and> id' (rs ! i) = k1 \<and> id' (rs ! j) = k2"
  let ?dbm = "fold perform cs1 db1" and ?dbe = "fold perform cs2 db2"
  have k1: "k1 = keyGenerator db0" and g1: "keyGenerator db1 = keyGenerator db0 + 1"
    using addRecord_cases [of t1 a db0 "Inr k1" db1] h by auto
  have ok1: "idb_ok db1"
    using idb_ok_perform [OF ok, of "Insert t1 a"] h by simp
  have k2: "k2 = keyGenerator ?dbm"
    using addRecord_cases [of t2 b ?dbm "Inr k2" db2] h by auto
  have ok2: "idb_ok db2"
    using idb_ok_perform [OF idb_ok_fold [OF ok1], of "Insert t2 b" cs1] h by simp
  have oke: "idb_ok ?dbe" using ok2 by (rule idb_ok_fold)
  have "keyGenerator db1 \<le> keyGenerator ?dbm" by (rule keyGenerator_fold)
  then have lt: "k1 < k2" using k1 k2 g1 by simp
  have rs: "rs = rev (names ?dbe)"
    using h by (intro getAllRecords_Inr) simp
  show "j < i"
  proof (rule ccontr)
    assume "\<not> j < i"
    then have "i < j \<or> i = j" by arith
    then show False
    proof
      assume "i < j"
      then have "id' (rev (names ?dbe) ! j) < id' (rev (names ?dbe) ! i)"
        using oke h rs by (intro descending_rev) (simp_all add: idb_ok_def)
      then show False using h rs lt by simp
    next
      assume "i = j" then show False using h lt by simp
    qed
  qed
qed

theorem getAllRecords_newest_first_witness:
  "idb_ok twoDB \<and> fault twoDB = Healthy \<and> (0::nat) < 1 \<and> 1 < length (names twoDB) \<and>
   getAllRecords twoDB = Inr (rev (names twoDB)) \<and>
   id' (rev (names twoDB) ! 1) < id' (rev (names twoDB) ! 0) \<and>
   idb_ok emptyDB \<and> fault emptyDB = Healthy \<and> names emptyDB = [] \<and>
   getAllRecords emptyDB = Inr [] \<and>
   addRecord 1000 jane emptyDB = (Inr 1, oneDB) \<and>
   addRecord 2000 john (fold perform [] oneDB) = (Inr 2, twoDB) \<and>
   getAllRecords (fold perform [] twoDB) = Inr (rev (names twoDB)) \<and>
   (0::nat) < length (rev (names twoDB)) \<and> 1 < length (rev (names twoDB)) \<and>
   id' (rev (names twoDB) ! 1) = 1 \<and> id' (rev (names twoDB) ! 0) = 2 \<and> (0::nat) < 1"
proof -
  have h2: "fault twoDB = Healthy" and l2: "1 < length (names twoDB)"
    and l0: "names twoDB \<noteq> []"
    by (simp_all add: twoDB_eq)
  have h0: "fault emptyDB = Healthy" and n0: "names emptyDB = []"
    by (simp_all add: emptyDB_def)
  have a1: "addRecord 1000 jane emptyDB = (Inr 1, oneDB)"
    by (simp add: oneDB_eq adapter_defs emptyDB_def)
  have a2: "addRecord 2000 john (fold perform [] oneDB) = (Inr 2, twoDB)"
    by (simp add: twoDB_eq oneDB_eq adapter_defs)
  have k: "id' (rev (names twoDB) ! 1) = 1" "id' (rev (names twoDB) ! 0) = 2"
    by (simp_all add: twoDB_eq)
  note two = getAllRecords_newest_first [OF idb_ok_twoDB]
  note zero = getAllRecords_newest_first [OF idb_ok_emptyDB, where ?t1.0 = 1000 and a = jane
      and ?k1.0 = 1 and ?db1.0 = oneDB and ?cs1.0 = "[]" and ?t2.0 = 2000 and b = john
      and ?k2.0 = 2 and ?db2.0 = twoDB and ?cs2.0 = "[]" and rs = "rev (names twoDB)"
      and i = 1 and j = 0]
  have g2: "getAllRecords twoDB = Inr (rev (names twoDB))"
    using two [THEN conjunct1] h2 by simp
  have d2: "id' (rev (names twoDB) ! 1) < id' (rev (names twoDB) ! 0)"
    using two [THEN conjunct1] h2 l2 by simp
  have g0: "getAllRecords emptyDB = Inr []"
    using zero [THEN conjunct2, THEN conjunct1] h0 n0 by simp
  have order: "(0::nat) < 1"
    using zero [THEN conjunct2, THEN conjunct2] a1 a2 g2 l2 k by simp
  show ?thesis
    using idb_ok_twoDB idb_ok_emptyDB h2 l2 l0 g2 d2 h0 n0 g0 a1 a2 k order
    by (intro conjI) simp_all
qed

subsection \<open>Inserting\<close>

text \<open>
  Claim C4. \<^verbatim>\<open>addRecord\<close> takes a record with neither \<^verbatim>\<open>id\<close> nor \<^verbatim>\<open>timestamp\<close> (the type
  \<^typ>\<open>form_data\<close> has neither). On a database that answers it returns the key the store
  assigned, which is the key generator's number and larger than every key in use, so
  all keys stay distinct, and the generator moves on by one; the listing that follows
  starts with the new record, whose \<^verbatim>\<open>timestamp\<close> is the \<^verbatim>\<open>Date.now()\<close> of the call and
  whose other fields are the submitted ones.
\<close>

theorem addRecord_assigns:
  assumes "idb_ok db" and "fault db = Healthy"
  shows "\<exists>key db' stored.
           addRecord now recordData db = (Inr key, db') \<and>
           key = keyGenerator db \<and> keyGenerator db' = Suc key \<and>
           (\<forall>r \<in> set (names db). id' r < key) \<and>
           distinct (map id' (names db')) \<and>
           getAllRecords db' = Inr (stored # rev (names db)) \<and>
           id' stored = key \<and> timestamp stored = now \<and>
           form_data.truncate stored = recordData"
proof -
  let ?stored = "record_object.extend (form_data.extend recordData (record_object.fields now))
                    (attendance.fields (keyGenerator db))"
  let ?db' = "db\<lparr>names := names db @ [?stored], keyGenerator := keyGenerator db + 1\<rparr>"
  have a: "addRecord now recordData db = (Inr (keyGenerator db), ?db')"
    using assms by (rule addRecord_healthy)
  have "idb_ok ?db'"
    using idb_ok_perform [OF assms(1), of "Insert now recordData"] a by simp
  then have d: "distinct (map id' (names ?db'))" by (simp add: idb_ok_def)
  have g: "getAllRecords ?db' = Inr (?stored # rev (names db))"
    using assms(2) by (simp add: getAllRecords_healthy)
  have b: "\<forall>r \<in> set (names db). id' r < keyGenerator db"
    using assms(1) by (simp add: idb_ok_def)
  show ?thesis
    using a d g b by (intro exI [of _ "keyGenerator db"] exI [of _ ?db'] exI [of _ ?stored]) simp
qed

theorem addRecord_assigns_witness:
  "idb_ok oneDB \<and> fault oneDB = Healthy \<and>
   (\<exists>key db' stored.
      addRecord 2000 john oneDB = (Inr key, db') \<and> key = keyGenerator oneDB \<and>
      keyGenerator db' = Suc key \<and>
      (\<forall>r \<in> set (names oneDB). id' r < key) \<and> distinct (map id' (names db')) \<and>
      getAllRecords db' = Inr (stored # rev (names oneDB)) \<and>
      id' stored = key \<and> timestamp stored = 2000 \<and> form_data.truncate stored = john)"
proof -
  have h: "fault oneDB = Healthy" by (simp add: oneDB_eq)
  show ?thesis
    using idb_ok_oneDB h addRecord_assigns [OF idb_ok_oneDB h, of 2000 john] by blast
qed

subsection \<open>Deleting one record\<close>

text \<open>
  Claim C5. \<^verbatim>\<open>deleteRecord\<close> is idempotent. On a database that answers, deleting a key
  that no record has succeeds and changes nothing, and deleting any key twice succeeds
  both times, the second call leaving the database as the first left it.
\<close>

theorem deleteRecord_idempotent:
  assumes "fault db = Healthy"
  shows "((\<forall>r \<in> set (names db). id' r \<noteq> ident) \<longrightarrow>
            deleteRecord ident db = (Inr True, db)) \<and>
         (\<exists>db1. deleteRecord ident db = (Inr True, db1) \<and>
                deleteRecord ident db1 = (Inr True, db1))"
proof
  show "(\<forall>r \<in> set (names db). id' r \<noteq> ident) \<longrightarrow> deleteRecord ident db = (Inr True, db)"
  proof
    assume "\<forall>r \<in> set (names db). id' r \<noteq> ident"
    then have "filter (\<lambda>r. id' r \<noteq> ident) (names db) = names db" by simp
    then show "deleteRecord ident db = (Inr True, db)"
      using assms by (simp add: deleteRecord_healthy)
  qed
  show "\<exists>db1. deleteRecord ident db = (Inr True, db1) \<and> deleteRecord ident db1 = (Inr True, db1)"
    using assms by (simp add: deleteRecord_healthy)
qed

theorem deleteRecord_idempotent_witness:
  "fault oneDB = Healthy \<and> id' (hd (names oneDB)) \<noteq> 7 \<and>
   deleteRecord 7 oneDB = (Inr True, oneDB) \<and>
   (\<exists>db1. deleteRecord 1 oneDB = (Inr True, db1) \<and> deleteRecord 1 db1 = (Inr True, db1))"
proof -
  have h: "fault oneDB = Healthy" by (simp add: oneDB_eq)
  have a: "\<forall>r \<in> set (names oneDB). id' r \<noteq> 7" and b: "id' (hd (names oneDB)) \<noteq> 7"
    by (simp_all add: oneDB_eq)
  show ?thesis
    using h a b deleteRecord_idempotent [OF h, of 7] deleteRecord_idempotent [OF h, of 1]
    by blast
qed

section \<open>Properties of the component\<close>

subsection \<open>What fetching, effects and rendering leave alone\<close>

lemmas arm_defs = successTimerEffect_def deleteTimerEffect_def clearTimerEffect_def

lemma finishFetchRecords_frame [simp]:
  "confirmClear (finishFetchRecords m s) = confirmClear s"
  "confirmDeleteId (finishFetchRecords m s) = confirmDeleteId s"
  "indexedDB (finishFetchRecords m s) = indexedDB s"
  "formData (finishFetchRecords m s) = formData s"
  "eventConfig (finishFetchRecords m s) = eventConfig s"
  "currentPage (finishFetchRecords m s) = currentPage s"
  "signatureCaptured (finishFetchRecords m s) = signatureCaptured s"
  "clearTimer (finishFetchRecords m s) = clearTimer s"
  "deleteTimer (finishFetchRecords m s) = deleteTimer s"
  "successTimer (finishFetchRecords m s) = successTimer s"
  "localStorage (finishFetchRecords m s) = localStorage s"
  "clock (finishFetchRecords m s) = clock s"
  "today (finishFetchRecords m s) = today s"
  "canvasPNG (finishFetchRecords m s) = canvasPNG s"
  "calls (finishFetchRecords m s) = calls s"
  "fetching (finishFetchRecords m s) = fetching s"
  by (simp_all add: finishFetchRecords_def Let_def split: sum.splits)

lemma startFetchRecords_frame [simp]:
  "confirmClear (startFetchRecords m s) = confirmClear s"
  "confirmDeleteId (startFetchRecords m s) = confirmDeleteId s"
  "indexedDB (startFetchRecords m s) = indexedDB s"
  "formData (startFetchRecords m s) = formData s"
  "eventConfig (startFetchRecords m s) = eventConfig s"
  "currentPage (startFetchRecords m s) = currentPage s"
  "signatureCaptured (startFetchRecords m s) = signatureCaptured s"
  "clearTimer (startFetchRecords m s) = clearTimer s"
  "deleteTimer (startFetchRecords m s) = deleteTimer s"
  "successTimer (startFetchRecords m s) = successTimer s"
  "localStorage (startFetchRecords m s) = localStorage s"
  "clock (startFetchRecords m s) = clock s"
  "today (startFetchRecords m s) = today s"
  "canvasPNG (startFetchRecords m s) = canvasPNG s"
  "message (startFetchRecords m s) = message s"
  "isDBReady (startFetchRecords m s) = isDBReady s"
  "storedRecords (startFetchRecords m s) = storedRecords s"
  "calls (startFetchRecords m s) = calls s @ [ListAll]"
  "fetching (startFetchRecords m s) = Some m"
  by (simp_all add: startFetchRecords_def)

lemma fetchRecords_frame [simp]:
  "confirmClear (fetchRecords m s) = confirmClear s"
  "confirmDeleteId (fetchRecords m s) = confirmDeleteId s"
  "indexedDB (fetchRecords m s) = indexedDB s"
  "formData (fetchRecords m s) = formData s"
  "eventConfig (fetchRecords m s) = eventConfig s"
  "currentPage (fetchRecords m s) = currentPage s"
  "signatureCaptured (fetchRecords m s) = signatureCaptured s"
  "clearTimer (fetchRecords m s) = clearTimer s"
  "deleteTimer (fetchRecords m s) = deleteTimer s"
  "successTimer (fetchRecords m s) = successTimer s"
  "localStorage (fetchRecords m s) = localStorage s"
  "clock (fetchRecords m s) = clock s"
  "today (fetchRecords m s) = today s"
  "canvasPNG (fetchRecords m s) = canvasPNG s"
  "calls (fetchRecords m s) = calls s @ [ListAll]"
  "fetching (fetchRecords m s) = fetching s"
  by (simp_all add: fetchRecords_def)

text \<open>
  The message a fetch leaves: the generic error when the listing fails; otherwise the
  displayed message when the closure's message has one of the three key words, and no
  message when it has none.
\<close>

lemma finishFetchRecords_message:
  "message (finishFetchRecords m s) =
     (case getAllRecords (indexedDB s) of
        Inl e \<Rightarrow> IDB_ERROR_MESSAGE
      | Inr rs \<Rightarrow>
          if \<not> str_includes m ''success'' \<and> \<not> str_includes m ''confirm''
             \<and> \<not> str_includes m ''SURE'' then '''' else message s)"
  by (simp add: finishFetchRecords_def Let_def split: sum.splits)

lemma finishFetchRecords_isDBReady:
  "isDBReady (finishFetchRecords m s) = (\<exists>rs. getAllRecords (indexedDB s) = Inr rs)"
  by (simp add: finishFetchRecords_def Let_def split: sum.splits)

lemma finishFetchRecords_storedRecords:
  "storedRecords (finishFetchRecords m s) =
     (case getAllRecords (indexedDB s) of Inl e \<Rightarrow> storedRecords s | Inr rs \<Rightarrow> rs)"
  by (simp add: finishFetchRecords_def Let_def split: sum.splits)

lemma fetchRecords_message:
  "message (fetchRecords m s) =
     (case getAllRecords (indexedDB s) of
        Inl e \<Rightarrow> IDB_ERROR_MESSAGE
      | Inr rs \<Rightarrow>
          if \<not> str_includes m ''success'' \<and> \<not> str_includes m ''confirm''
             \<and> \<not> str_includes m ''SURE'' then '''' else message s)"
  by (simp add: fetchRecords_def finishFetchRecords_message split: sum.splits)

lemma fetchRecords_isDBReady:
  "isDBReady (fetchRecords m s) = (\<exists>rs. getAllRecords (indexedDB s) = Inr rs)"
  by (simp add: fetchRecords_def finishFetchRecords_isDBReady split: sum.splits)

lemma fetchRecords_storedRecords:
  "storedRecords (fetchRecords m s) =
     (case getAllRecords (indexedDB s) of Inl e \<Rightarrow> storedRecords s | Inr rs \<Rightarrow> rs)"
  by (simp add: fetchRecords_def finishFetchRecords_storedRecords split: sum.splits)

lemma loadConfigAndFetch_frame [simp]:
  "confirmClear (loadConfigAndFetch s) = confirmClear s"
  "confirmDeleteId (loadConfigAndFetch s) = confirmDeleteId s"
  "indexedDB (loadConfigAndFetch s) = indexedDB s"
  "formData (loadConfigAndFetch s) = formData s"
  "currentPage (loadConfigAndFetch s) = currentPage s"
  "signatureCaptured (loadConfigAndFetch s) = signatureCaptured s"
  "clearTimer (loadConfigAndFetch s) = clearTimer s"
  "deleteTimer (loadConfigAndFetch s) = deleteTimer s"
  "successTimer (loadConfigAndFetch s) = successTimer s"
  "localStorage (loadConfigAndFetch s) = localStorage s"
  "clock (loadConfigAndFetch s) = clock s"
  "today (loadConfigAndFetch s) = today s"
  "canvasPNG (loadConfigAndFetch s) = canvasPNG s"
  "fetching (loadConfigAndFetch s) = fetching s"
  by (simp_all add: loadConfigAndFetch_def split: option.splits)

lemma loadConfigAndFetch_message:
  "message (loadConfigAndFetch s) =
     (case getAllRecords (indexedDB s) of
        Inl e \<Rightarrow> IDB_ERROR_MESSAGE
      | Inr rs \<Rightarrow>
          if \<not> str_includes (message s) ''success'' \<and> \<not> str_includes (message s) ''confirm''
             \<and> \<not> str_includes (message s) ''SURE'' then '''' else message s)"
  by (simp add: loadConfigAndFetch_def fetchRecords_message split: option.splits sum.splits)

lemma loadConfigAndFetch_isDBReady:
  "isDBReady (loadConfigAndFetch s) = (\<exists>rs. getAllRecords (indexedDB s) = Inr rs)"
  by (simp add: loadConfigAndFetch_def fetchRecords_isDBReady split: option.splits)

lemma loadConfigAndFetch_storedRecords:
  "storedRecords (loadConfigAndFetch s) =
     (case getAllRecords (indexedDB s) of Inl e \<Rightarrow> storedRecords s | Inr rs \<Rightarrow> rs)"
  by (simp add: loadConfigAndFetch_def fetchRecords_storedRecords split: option.splits sum.splits)

text \<open>Fetching twice in a row changes the message at most once.\<close>

lemma loadConfigAndFetch_message_twice:
  "message (loadConfigAndFetch (t\<lparr>message := message (loadConfigAndFetch s)\<rparr>)) =
   message (loadConfigAndFetch s)" if "indexedDB t = indexedDB s"
  using that by (simp add: loadConfigAndFetch_message IDB_ERROR_MESSAGE_def split: sum.splits)

lemma runEffects_frame [simp]:
  "confirmClear (runEffects p c) = confirmClear c"
  "confirmDeleteId (runEffects p c) = confirmDeleteId c"
  "indexedDB (runEffects p c) = indexedDB c"
  "formData (runEffects p c) = formData c"
  "currentPage (runEffects p c) = currentPage c"
  "signatureCaptured (runEffects p c) = signatureCaptured c"
  "localStorage (runEffects p c) = localStorage c"
  "clock (runEffects p c) = clock c"
  "today (runEffects p c) = today c"
  "canvasPNG (runEffects p c) = canvasPNG c"
  "fetching (runEffects p c) = fetching c"
  by (simp_all add: runEffects_def arm_defs Let_def)

lemma render_frame [simp]:
  "confirmClear (render p c) = confirmClear c"
  "confirmDeleteId (render p c) = confirmDeleteId c"
  "indexedDB (render p c) = indexedDB c"
  "formData (render p c) = formData c"
  "currentPage (render p c) = currentPage c"
  "signatureCaptured (render p c) = signatureCaptured c"
  "localStorage (render p c) = localStorage c"
  "clock (render p c) = clock c"
  "today (render p c) = today c"
  "canvasPNG (render p c) = canvasPNG c"
  "fetching (render p c) = fetching c"
  by (simp_all add: render_def)

text \<open>What a round of effects does to the message, the readiness flag and the list.\<close>

lemma runEffects_message:
  "message (runEffects p c) =
     (if message c = message p then message c
      else case getAllRecords (indexedDB c) of
             Inl e \<Rightarrow> IDB_ERROR_MESSAGE
           | Inr rs \<Rightarrow>
               if \<not> str_includes (message c) ''success'' \<and> \<not> str_includes (message c) ''confirm''
                  \<and> \<not> str_includes (message c) ''SURE'' then '''' else message c)"
  by (simp add: runEffects_def arm_defs Let_def loadConfigAndFetch_message split: sum.splits)

lemma runEffects_isDBReady:
  "isDBReady (runEffects p c) =
     (if message c = message p then isDBReady c
      else \<exists>rs. getAllRecords (indexedDB c) = Inr rs)"
  by (simp add: runEffects_def arm_defs Let_def loadConfigAndFetch_isDBReady)

lemma runEffects_storedRecords:
  "storedRecords (runEffects p c) =
     (if message c = message p then storedRecords c
      else case getAllRecords (indexedDB c) of Inl e \<Rightarrow> storedRecords c | Inr rs \<Rightarrow> rs)"
  by (simp add: runEffects_def arm_defs Let_def loadConfigAndFetch_storedRecords split: sum.splits)

lemma runEffects_clearTimer:
  "clearTimer (runEffects p c) =
     (if confirmClear c = confirmClear p then clearTimer c
      else if confirmClear c then Some 5000 else None)"
  by (simp add: runEffects_def arm_defs Let_def)

lemma runEffects_deleteTimer:
  "deleteTimer (runEffects p c) =
     (if confirmDeleteId c = confirmDeleteId p \<and> message c = message p then deleteTimer c
      else if confirmDeleteId c \<noteq> None then Some 5000 else None)"
  by (auto simp: runEffects_def arm_defs Let_def)

lemma runEffects_successTimer:
  "successTimer (runEffects p c) =
     (if message c = message p then successTimer c
      else if str_includes (message c) ''success'' then Some 3000 else None)"
  by (simp add: runEffects_def arm_defs Let_def)

lemma no_keyword_in_empty [simp]:
  "\<not> str_includes '''' ''success''" "\<not> str_includes '''' ''confirm''" "\<not> str_includes '''' ''SURE''"
  by simp_all

lemma no_keyword_in_error [simp]:
  "\<not> str_includes IDB_ERROR_MESSAGE ''success''"
  by (simp add: IDB_ERROR_MESSAGE_def)

text \<open>
  After a render the message is the handler's own if the handler left it alone, and
  otherwise what one fetch makes of it; a second fetch would not change it again.
\<close>

lemma render_message:
  "message (render p c) =
     (if message c = message p then message c
      else case getAllRecords (indexedDB c) of
             Inl e \<Rightarrow> IDB_ERROR_MESSAGE
           | Inr rs \<Rightarrow>
               if \<not> str_includes (message c) ''success'' \<and> \<not> str_includes (message c) ''confirm''
                  \<and> \<not> str_includes (message c) ''SURE'' then '''' else message c)"
  by (simp add: render_def runEffects_message split: sum.splits)

lemma render_isDBReady:
  "isDBReady (render p c) =
     (if message c = message p then isDBReady c
      else \<exists>rs. getAllRecords (indexedDB c) = Inr rs)"
  by (auto simp: render_def runEffects_message runEffects_isDBReady split: sum.splits)

lemma render_storedRecords:
  "storedRecords (render p c) =
     (if message c = message p then storedRecords c
      else case getAllRecords (indexedDB c) of Inl e \<Rightarrow> storedRecords c | Inr rs \<Rightarrow> rs)"
  by (auto simp: render_def runEffects_message runEffects_storedRecords split: sum.splits)

lemma render_clearTimer:
  "clearTimer (render p c) =
     (if confirmClear c = confirmClear p then clearTimer c
      else if confirmClear c then Some 5000 else None)"
  by (simp add: render_def runEffects_clearTimer)

lemma render_deleteTimer:
  "deleteTimer (render p c) =
     (if confirmDeleteId c = confirmDeleteId p \<and> message c = message p then deleteTimer c
      else if confirmDeleteId c \<noteq> None then Some 5000 else None)"
proof (cases "message c = message p")
  case True
  then show ?thesis by (simp add: render_def runEffects_deleteTimer runEffects_message)
next
  case False
  then show ?thesis by (simp add: render_def runEffects_deleteTimer)
qed

lemma render_successTimer:
  "successTimer (render p c) =
     (if message c = message p then successTimer c
      else if str_includes (message (render p c)) ''success'' then Some 3000 else None)"
  by (auto simp: render_def runEffects_successTimer runEffects_message split: sum.splits)

text \<open>Two rounds of effects are all there are: a third finds nothing to do.\<close>

lemma render_settled: "runEffects (runEffects p c) (render p c) = render p c"
proof -
  have m: "message (render p c) = message (runEffects p c)"
    by (simp add: render_message runEffects_message split: sum.splits)
  show ?thesis
    by (simp add: runEffects_def [of "runEffects p c"] arm_defs m Let_def)
qed

subsection \<open>The answer to a handler's fetch\<close>

lemma resolveFetch_None: "fetching r = None \<Longrightarrow> resolveFetch r = r"
  by (simp add: resolveFetch_def)

lemma resolveFetch_Some:
  "fetching r = Some m \<Longrightarrow>
     resolveFetch r =
       render (r\<lparr>fetching := None\<rparr>) (finishFetchRecords m (r\<lparr>fetching := None\<rparr>))"
  by (simp add: resolveFetch_def Let_def)

lemma resolveFetch_frame [simp]:
  "confirmClear (resolveFetch r) = confirmClear r"
  "confirmDeleteId (resolveFetch r) = confirmDeleteId r"
  "indexedDB (resolveFetch r) = indexedDB r"
  "formData (resolveFetch r) = formData r"
  "currentPage (resolveFetch r) = currentPage r"
  "signatureCaptured (resolveFetch r) = signatureCaptured r"
  "localStorage (resolveFetch r) = localStorage r"
  "clock (resolveFetch r) = clock r"
  "today (resolveFetch r) = today r"
  "canvasPNG (resolveFetch r) = canvasPNG r"
  "fetching (resolveFetch r) = None"
  by (simp_all add: resolveFetch_def Let_def split: option.splits)

subsection \<open>The handlers, case by case\<close>

lemma handleDelete_not_ready: "\<not> isDBReady s \<Longrightarrow> handleDelete ident s = s"
  by (simp add: handleDelete_def)

lemma handleDelete_first:
  "isDBReady s \<Longrightarrow> confirmDeleteId s \<noteq> Some ident \<Longrightarrow>
     handleDelete ident s =
       s\<lparr>message := confirmDeleteMessage (recordName ident (storedRecords s)),
         confirmDeleteId := Some ident, confirmClear := False\<rparr>"
  by (simp add: handleDelete_def)

lemma handleDelete_second_ok:
  "isDBReady s \<Longrightarrow> confirmDeleteId s = Some ident \<Longrightarrow>
   deleteRecord ident (indexedDB s) = (Inr ok, db') \<Longrightarrow>
     handleDelete ident s =
       startFetchRecords (message s)
         (s\<lparr>calls := calls s @ [DeleteOne ident], indexedDB := db',
            message := IDB_DELETE_MESSAGE, confirmDeleteId := None\<rparr>)"
  by (simp add: handleDelete_def)

lemma handleDelete_second_fails:
  "isDBReady s \<Longrightarrow> confirmDeleteId s = Some ident \<Longrightarrow>
   deleteRecord ident (indexedDB s) = (Inl error, db') \<Longrightarrow>
     handleDelete ident s =
       s\<lparr>calls := calls s @ [DeleteOne ident], indexedDB := db',
         message := orElse (error_message error) ''Error deleting record.''\<rparr>"
  by (simp add: handleDelete_def)

lemma handleClearAll_not_ready: "\<not> isDBReady s \<Longrightarrow> handleClearAll s = s"
  by (simp add: handleClearAll_def)

lemma handleClearAll_first:
  "isDBReady s \<Longrightarrow> \<not> confirmClear s \<Longrightarrow>
     handleClearAll s =
       s\<lparr>message := ''ARE YOU SURE? Click this button again to CONFIRM deleting ALL records.'',
         confirmClear := True, confirmDeleteId := None\<rparr>"
  by (simp add: handleClearAll_def)

lemma handleClearAll_second_ok:
  "isDBReady s \<Longrightarrow> confirmClear s \<Longrightarrow>
   deleteAllRecords (indexedDB s) = (Inr ok, db') \<Longrightarrow>
     handleClearAll s =
       startFetchRecords (message s)
         (s\<lparr>calls := calls s @ [DeleteAll], indexedDB := db',
            message := IDB_CLEAR_ALL_MESSAGE, confirmClear := False,
            confirmDeleteId := None\<rparr>)"
  by (simp add: handleClearAll_def)

lemma handleClearAll_second_fails:
  "isDBReady s \<Longrightarrow> confirmClear s \<Longrightarrow>
   deleteAllRecords (indexedDB s) = (Inl error, db') \<Longrightarrow>
     handleClearAll s =
       s\<lparr>calls := calls s @ [DeleteAll], indexedDB := db',
         message := orElse (error_message error) ''Error clearing all records.''\<rparr>"
  by (simp add: handleClearAll_def)

text \<open>The database after each handler.\<close>

lemma handleDelete_indexedDB:
  "indexedDB (handleDelete ident s) =
     (if isDBReady s \<and> confirmDeleteId s = Some ident
      then snd (deleteRecord ident (indexedDB s)) else indexedDB s)"
  by (simp add: handleDelete_def Let_def split: prod.splits sum.splits)

lemma handleClearAll_indexedDB:
  "indexedDB (handleClearAll s) =
     (if isDBReady s \<and> confirmClear s
      then snd (deleteAllRecords (indexedDB s)) else indexedDB s)"
  by (simp add: handleClearAll_def Let_def split: prod.splits sum.splits)

lemma handleSubmit_indexedDB:
  "indexedDB (handleSubmit s) = indexedDB s \<or>
   indexedDB (handleSubmit s) =
     snd (addRecord (clock s) ((formData s)\<lparr>signature := Some (canvasPNG s)\<rparr>) (indexedDB s))"
  by (simp add: handleSubmit_def Let_def handleClearSignature_def split: prod.splits sum.splits)

lemma other_handlers_indexedDB [simp]:
  "indexedDB (handleInputChange name v s) = indexedDB s"
  "indexedDB (handleStatusChange sname checked s) = indexedDB s"
  "indexedDB (handleConfigChange cname v s) = indexedDB s"
  "indexedDB (handleClearSignature s) = indexedDB s"
  "indexedDB (startDrawing s) = indexedDB s"
  "indexedDB (setCurrentPage p s) = indexedDB s"
  by (simp_all add: handleInputChange_def handleStatusChange_def handleConfigChange_def
        handleClearSignature_def startDrawing_def setCurrentPage_def Let_def)

text \<open>The two confirmation cells after each handler.\<close>

lemma handleDelete_confirm:
  "confirmDeleteId (handleDelete ident s) =
     (if \<not> isDBReady s then confirmDeleteId s
      else if confirmDeleteId s = Some ident
      then (case fst (deleteRecord ident (indexedDB s)) of
              Inl e \<Rightarrow> Some ident | Inr ok \<Rightarrow> None)
      else Some ident)"
  "confirmClear (handleDelete ident s) =
     (if isDBReady s \<and> confirmDeleteId s \<noteq> Some ident then False else confirmClear s)"
  by (simp_all add: handleDelete_def Let_def split: prod.splits sum.splits)

lemma handleClearAll_confirm:
  "confirmClear (handleClearAll s) =
     (if \<not> isDBReady s then confirmClear s
      else if confirmClear s
      then (case fst (deleteAllRecords (indexedDB s)) of Inl e \<Rightarrow> True | Inr ok \<Rightarrow> False)
      else True)"
  "confirmDeleteId (handleClearAll s) =
     (if \<not> isDBReady s then confirmDeleteId s
      else if confirmClear s
      then (case fst (deleteAllRecords (indexedDB s)) of
              Inl e \<Rightarrow> confirmDeleteId s | Inr ok \<Rightarrow> None)
      else None)"
  by (simp_all add: handleClearAll_def Let_def split: prod.splits sum.splits)

lemma handleSubmit_confirm:
  "confirmClear (handleSubmit s) \<Longrightarrow> confirmClear s"
  "confirmDeleteId (handleSubmit s) = Some ident \<Longrightarrow> confirmDeleteId s = Some ident"
  by (simp_all add: handleSubmit_def Let_def handleClearSignature_def
        split: prod.splits sum.splits if_splits)

lemma resetting_handlers_confirm [simp]:
  "confirmClear (handleInputChange name v s) = False"
  "confirmDeleteId (handleInputChange name v s) = None"
  "confirmClear (handleStatusChange sname checked s) = False"
  "confirmDeleteId (handleStatusChange sname checked s) = None"
  "confirmClear (setCurrentPage Records s) = False"
  "confirmDeleteId (setCurrentPage Records s) = None"
  by (simp_all add: handleInputChange_def handleStatusChange_def setCurrentPage_def)

lemma neutral_handlers_confirm [simp]:
  "confirmClear (handleConfigChange cname v s) = confirmClear s"
  "confirmDeleteId (handleConfigChange cname v s) = confirmDeleteId s"
  "confirmClear (handleClearSignature s) = confirmClear s"
  "confirmDeleteId (handleClearSignature s) = confirmDeleteId s"
  "confirmClear (startDrawing s) = confirmClear s"
  "confirmDeleteId (startDrawing s) = confirmDeleteId s"
  "p \<noteq> Records \<Longrightarrow> confirmClear (setCurrentPage p s) = confirmClear s"
  "p \<noteq> Records \<Longrightarrow> confirmDeleteId (setCurrentPage p s) = confirmDeleteId s"
  by (simp_all add: handleConfigChange_def handleClearSignature_def startDrawing_def
        setCurrentPage_def Let_def)

subsection \<open>A millisecond\<close>

lemma timeouts_frame [simp]:
  "indexedDB (onSuccessTimeout s) = indexedDB s"
  "indexedDB (onClearTimeout s) = indexedDB s"
  "indexedDB (onDeleteTimeout s) = indexedDB s"
  "currentPage (onSuccessTimeout s) = currentPage s"
  "currentPage (onClearTimeout s) = currentPage s"
  "currentPage (onDeleteTimeout s) = currentPage s"
  "confirmClear (onSuccessTimeout s) = confirmClear s"
  "confirmDeleteId (onSuccessTimeout s) = confirmDeleteId s"
  "confirmClear (onClearTimeout s) = False"
  "confirmDeleteId (onClearTimeout s) = confirmDeleteId s"
  "confirmClear (onDeleteTimeout s) = confirmClear s"
  "confirmDeleteId (onDeleteTimeout s) = None"
  by (simp_all add: onSuccessTimeout_def onClearTimeout_def onDeleteTimeout_def Let_def)

lemma fire_frame [simp]:
  "indexedDB (fireSuccessTimer s) = indexedDB s"
  "indexedDB (fireClearTimer s) = indexedDB s"
  "indexedDB (fireDeleteTimer s) = indexedDB s"
  "currentPage (fireSuccessTimer s) = currentPage s"
  "currentPage (fireClearTimer s) = currentPage s"
  "currentPage (fireDeleteTimer s) = currentPage s"
  by (simp_all add: fireSuccessTimer_def fireClearTimer_def fireDeleteTimer_def)

lemma tick_frame [simp]:
  "indexedDB (tick s) = indexedDB s"
  "currentPage (tick s) = currentPage s"
  by (simp_all add: tick_def)

lemma elapse_frame [simp]:
  "indexedDB (elapse n s) = indexedDB s"
  "currentPage (elapse n s) = currentPage s"
  by (induction n arbitrary: s) simp_all

lemma elapse_add: "elapse (m + n) s = elapse n (elapse m s)"
  by (induction m arbitrary: s) simp_all

text \<open>A timer that fires takes a confirmation away; none ever sets one.\<close>

lemma fire_confirm:
  "confirmClear (fireSuccessTimer s) = confirmClear s"
  "confirmDeleteId (fireSuccessTimer s) = confirmDeleteId s"
  "confirmClear (fireClearTimer s) = (confirmClear s \<and> clearTimer s \<noteq> Some 0)"
  "confirmDeleteId (fireClearTimer s) = confirmDeleteId s"
  "confirmClear (fireDeleteTimer s) = confirmClear s"
  "confirmDeleteId (fireDeleteTimer s) = (if deleteTimer s = Some 0 then None else confirmDeleteId s)"
  by (simp_all add: fireSuccessTimer_def fireClearTimer_def fireDeleteTimer_def)

lemma tick_confirm:
  "confirmClear (tick s) \<Longrightarrow> confirmClear s"
  "confirmDeleteId (tick s) = Some ident \<Longrightarrow> confirmDeleteId s = Some ident"
  by (simp_all add: tick_def fire_confirm split: if_splits)

subsection \<open>What one event does to the store and to the confirmations\<close>

lemma step_names:
  "names (indexedDB (step e s)) = names (indexedDB s) \<or>
   (e = Submit \<and> set (names (indexedDB s)) \<subseteq> set (names (indexedDB (step e s)))) \<or>
   (\<exists>ident. e = Delete ident \<and> isDBReady s \<and> confirmDeleteId s = Some ident \<and>
      names (indexedDB (step e s)) = filter (\<lambda>r. id' r \<noteq> ident) (names (indexedDB s))) \<or>
   (e = ClearAll \<and> isDBReady s \<and> confirmClear s \<and> names (indexedDB (step e s)) = [])"
proof (cases e)
  case Submit
  obtain r db' where a: "addRecord (clock s) ((formData s)\<lparr>signature := Some (canvasPNG s)\<rparr>)
      (indexedDB s) = (r, db')"
    by (cases "addRecord (clock s) ((formData s)\<lparr>signature := Some (canvasPNG s)\<rparr>) (indexedDB s)")
  from addRecord_cases [OF a] have "set (names (indexedDB s)) \<subseteq> set (names db')"
    by (auto simp: set_insort_key)
  then show ?thesis
    using Submit handleSubmit_indexedDB [of s] a by auto
next
  case (Delete ident)
  obtain r db' where a: "deleteRecord ident (indexedDB s) = (r, db')"
    by (cases "deleteRecord ident (indexedDB s)")
  from deleteRecord_cases [OF a] show ?thesis
    using Delete a by (auto simp: handleDelete_indexedDB)
next
  case ClearAll
  obtain r db' where a: "deleteAllRecords (indexedDB s) = (r, db')"
    by (cases "deleteAllRecords (indexedDB s)")
  from deleteAllRecords_cases [OF a] show ?thesis
    using ClearAll a by (auto simp: handleClearAll_indexedDB)
qed simp_all

lemma step_one_pending: "one_pending s \<Longrightarrow> one_pending (step e s)"
proof (cases e)
  case Submit
  assume "one_pending s" then show ?thesis
    using Submit handleSubmit_confirm [of s] by (cases "confirmDeleteId (handleSubmit s)") (auto simp: one_pending_def)
next
  case (Delete ident)
  assume "one_pending s" then show ?thesis
    using Delete by (auto simp: one_pending_def handleDelete_confirm split: sum.splits if_splits)
next
  case ClearAll
  assume "one_pending s" then show ?thesis
    using ClearAll by (auto simp: one_pending_def handleClearAll_confirm split: sum.splits if_splits)
next
  case (GoTo p)
  assume "one_pending s" then show ?thesis
    using GoTo by (cases "p = Records") (auto simp: one_pending_def)
next
  case Tick
  assume "one_pending s" then show ?thesis
    using Tick tick_confirm [of s] by (cases "confirmDeleteId (tick s)") (auto simp: one_pending_def)
qed (simp_all add: one_pending_def)

lemma mount_one_pending: "one_pending (mount (initialApp db saved now date png))"
  by (simp add: one_pending_def mount_def initialApp_def)

lemma reachable_one_pending: "reachable s \<Longrightarrow> one_pending s"
  by (induction rule: reachable.induct) (simp_all add: mount_one_pending step_one_pending)

subsection \<open>No fetch is left unanswered\<close>

lemma simple_handlers_fetching [simp]:
  "fetching (handleInputChange name v s) = fetching s"
  "fetching (handleStatusChange sname checked s) = fetching s"
  "fetching (handleConfigChange cname v s) = fetching s"
  "fetching (handleClearSignature s) = fetching s"
  "fetching (startDrawing s) = fetching s"
  "fetching (setCurrentPage p s) = fetching s"
  by (simp_all add: handleInputChange_def handleStatusChange_def handleConfigChange_def
        handleClearSignature_def startDrawing_def setCurrentPage_def Let_def)

lemma tick_fetching [simp]: "fetching (tick s) = fetching s"
  by (simp add: tick_def fireSuccessTimer_def fireClearTimer_def fireDeleteTimer_def
        onSuccessTimeout_def onClearTimeout_def onDeleteTimeout_def Let_def)

lemma elapse_fetching [simp]: "fetching (elapse n s) = fetching s"
  by (induction n arbitrary: s) simp_all

lemma step_fetching: "fetching s = None \<Longrightarrow> fetching (step e s) = None"
  by (cases e) simp_all

lemma reachable_fetching: "reachable s \<Longrightarrow> fetching s = None"
  by (induction rule: reachable.induct) (simp_all add: mount_def initialApp_def step_fetching)

text \<open>
  A handler that does not come to call \<^verbatim>\<open>fetchRecords()\<close> leaves nothing to answer: the
  event ends with the render of the handler's updates.
\<close>

lemma step_Delete_first:
  "isDBReady s \<Longrightarrow> confirmDeleteId s \<noteq> Some ident \<Longrightarrow> fetching s = None \<Longrightarrow>
     step (Delete ident) s = render s (handleDelete ident s)"
  by (simp add: handleDelete_first resolveFetch_None)

lemma step_Delete_fails:
  "isDBReady s \<Longrightarrow> confirmDeleteId s = Some ident \<Longrightarrow>
   deleteRecord ident (indexedDB s) = (Inl error, db') \<Longrightarrow> fetching s = None \<Longrightarrow>
     step (Delete ident) s = render s (handleDelete ident s)"
  by (simp add: handleDelete_second_fails resolveFetch_None)

lemma step_ClearAll_first:
  "isDBReady s \<Longrightarrow> \<not> confirmClear s \<Longrightarrow> fetching s = None \<Longrightarrow>
     step ClearAll s = render s (handleClearAll s)"
  by (simp add: handleClearAll_first resolveFetch_None)

lemma step_ClearAll_fails:
  "isDBReady s \<Longrightarrow> confirmClear s \<Longrightarrow>
   deleteAllRecords (indexedDB s) = (Inl error, db') \<Longrightarrow> fetching s = None \<Longrightarrow>
     step ClearAll s = render s (handleClearAll s)"
  by (simp add: handleClearAll_second_fails resolveFetch_None)

subsection \<open>The example states\<close>

lemma getAllRecords_twoDB: "getAllRecords twoDB = Inr (rev (names twoDB))"
  by (simp add: getAllRecords_healthy twoDB_eq)

lemma appStart_fields:
  "indexedDB appStart = twoDB" "isDBReady appStart" "message appStart = ''''"
  "storedRecords appStart = rev (names twoDB)" "currentPage appStart = Setup"
  "\<not> confirmClear appStart" "confirmDeleteId appStart = None"
  "clearTimer appStart = None" "deleteTimer appStart = None" "successTimer appStart = None"
  "localStorage appStart = Some summit"
  by (simp_all add: appStart_def mount_def render_message render_isDBReady render_storedRecords
        render_clearTimer render_deleteTimer render_successTimer
        loadConfigAndFetch_message loadConfigAndFetch_isDBReady loadConfigAndFetch_storedRecords
        initialApp_def getAllRecords_twoDB)

lemma reachable_appStart: "reachable appStart"
  unfolding appStart_def by (rule reachable.mounted) (rule idb_ok_twoDB)

lemma recordsPage_fields:
  "indexedDB recordsPage = twoDB" "isDBReady recordsPage" "message recordsPage = ''''"
  "storedRecords recordsPage = rev (names twoDB)" "currentPage recordsPage = Records"
  "\<not> confirmClear recordsPage" "confirmDeleteId recordsPage = None"
  "clearTimer recordsPage = None" "deleteTimer recordsPage = None"
  "successTimer recordsPage = None"
  by (simp_all add: recordsPage_def render_message render_isDBReady render_storedRecords
        render_clearTimer render_deleteTimer render_successTimer
        setCurrentPage_def appStart_fields)

lemma reachable_recordsPage: "reachable recordsPage"
  unfolding recordsPage_def by (rule reachable.after [OF reachable_appStart]) simp

lemma enabled_recordsPage:
  "enabled (Delete 1) recordsPage" "enabled (Delete 2) recordsPage" "enabled ClearAll recordsPage"
  by (simp_all add: recordsPage_fields) (simp_all add: twoDB_eq)

lemma pendingDelete_eq: "pendingDelete = render recordsPage (handleDelete 1 recordsPage)"
  unfolding pendingDelete_def
  by (rule step_Delete_first) (simp_all add: recordsPage_fields reachable_fetching reachable_recordsPage)

lemma pendingDelete_fields:
  "indexedDB pendingDelete = twoDB" "isDBReady pendingDelete"
  "storedRecords pendingDelete = rev (names twoDB)" "currentPage pendingDelete = Records"
  "\<not> confirmClear pendingDelete" "confirmDeleteId pendingDelete = Some 1"
  by (simp_all add: pendingDelete_eq render_isDBReady render_storedRecords
        handleDelete_first recordsPage_fields getAllRecords_twoDB)

lemma reachable_pendingDelete: "reachable pendingDelete"
  unfolding pendingDelete_def
  by (rule reachable.after [OF reachable_recordsPage]) (rule enabled_recordsPage)

lemma pendingClear_eq: "pendingClear = render recordsPage (handleClearAll recordsPage)"
  unfolding pendingClear_def
  by (rule step_ClearAll_first) (simp_all add: recordsPage_fields reachable_fetching reachable_recordsPage)

lemma pendingClear_fields:
  "indexedDB pendingClear = twoDB" "isDBReady pendingClear"
  "storedRecords pendingClear = rev (names twoDB)" "currentPage pendingClear = Records"
  "confirmClear pendingClear" "confirmDeleteId pendingClear = None"
  by (simp_all add: pendingClear_eq render_isDBReady render_storedRecords
        handleClearAll_first recordsPage_fields getAllRecords_twoDB)

lemma reachable_pendingClear: "reachable pendingClear"
  unfolding pendingClear_def
  by (rule reachable.after [OF reachable_recordsPage]) (rule enabled_recordsPage)

subsection \<open>One confirmation at a time\<close>

text \<open>
  Claim C2. In every reachable state at most one of the two confirmations is pending.
  A delete request that newly makes a record's confirmation pending leaves the
  clear-all confirmation idle, and a clear-all request that newly makes the clear-all
  confirmation pending leaves no record's confirmation pending. A request for another
  target while a confirmation is pending (another record, a record while clear-all is
  pending, clear-all while a record is pending) makes the new target the pending one
  and leaves the store as it is. Whatever the event, a record leaves the store only
  through a delete request for that record's own key while that key's confirmation is
  pending, or through a clear-all request while the clear-all confirmation is pending.
\<close>

theorem one_confirmation_at_a_time:
  assumes "reachable s"
  shows "\<not> (confirmClear s \<and> confirmDeleteId s \<noteq> None)
       \<and> (confirmDeleteId s \<noteq> Some k \<and> confirmDeleteId (step (Delete k) s) = Some k
            \<longrightarrow> \<not> confirmClear (step (Delete k) s))
       \<and> (\<not> confirmClear s \<and> confirmClear (step ClearAll s)
            \<longrightarrow> confirmDeleteId (step ClearAll s) = None)
       \<and> (enabled (Delete k) s \<and> confirmDeleteId s = Some j \<and> j \<noteq> k
            \<longrightarrow> confirmDeleteId (step (Delete k) s) = Some k
                \<and> names (indexedDB (step (Delete k) s)) = names (indexedDB s))
       \<and> (enabled (Delete k) s \<and> confirmClear s
            \<longrightarrow> confirmDeleteId (step (Delete k) s) = Some k
                \<and> \<not> confirmClear (step (Delete k) s)
                \<and> names (indexedDB (step (Delete k) s)) = names (indexedDB s))
       \<and> (enabled ClearAll s \<and> confirmDeleteId s = Some j
            \<longrightarrow> confirmClear (step ClearAll s) \<and> confirmDeleteId (step ClearAll s) = None
                \<and> names (indexedDB (step ClearAll s)) = names (indexedDB s))
       \<and> (r \<in> set (names (indexedDB s)) \<and> r \<notin> set (names (indexedDB (step e s)))
            \<longrightarrow> (e = Delete (id' r) \<and> confirmDeleteId s = Some (id' r))
                \<or> (e = ClearAll \<and> confirmClear s))"
proof -
  have one: "\<not> confirmClear s \<or> confirmDeleteId s = None"
    using reachable_one_pending [OF assms] by (simp add: one_pending_def)
  have c1: "\<not> (confirmClear s \<and> confirmDeleteId s \<noteq> None)"
    using one by auto
  have c2: "confirmDeleteId s \<noteq> Some k \<and> confirmDeleteId (step (Delete k) s) = Some k
            \<longrightarrow> \<not> confirmClear (step (Delete k) s)"
    by (auto simp: handleDelete_confirm)
  have c3: "\<not> confirmClear s \<and> confirmClear (step ClearAll s)
            \<longrightarrow> confirmDeleteId (step ClearAll s) = None"
    by (auto simp: handleClearAll_confirm)
  have c4: "enabled (Delete k) s \<and> confirmDeleteId s = Some j \<and> j \<noteq> k
            \<longrightarrow> confirmDeleteId (step (Delete k) s) = Some k
                \<and> names (indexedDB (step (Delete k) s)) = names (indexedDB s)"
    by (simp add: handleDelete_confirm handleDelete_indexedDB)
  have c5: "enabled (Delete k) s \<and> confirmClear s
            \<longrightarrow> confirmDeleteId (step (Delete k) s) = Some k
                \<and> \<not> confirmClear (step (Delete k) s)
                \<and> names (indexedDB (step (Delete k) s)) = names (indexedDB s)"
    using one by (auto simp: handleDelete_confirm handleDelete_indexedDB)
  have c6: "enabled ClearAll s \<and> confirmDeleteId s = Some j
            \<longrightarrow> confirmClear (step ClearAll s) \<and> confirmDeleteId (step ClearAll s) = None
                \<and> names (indexedDB (step ClearAll s)) = names (indexedDB s)"
    using one by (auto simp: handleClearAll_confirm handleClearAll_indexedDB)
  have c7: "r \<in> set (names (indexedDB s)) \<and> r \<notin> set (names (indexedDB (step e s)))
            \<longrightarrow> (e = Delete (id' r) \<and> confirmDeleteId s = Some (id' r))
                \<or> (e = ClearAll \<and> confirmClear s)"
    using step_names [of e s] by auto
  show ?thesis
    by (intro conjI) (rule c1 c2 c3 c4 c5 c6 c7)+
qed

theorem one_confirmation_at_a_time_witness:
  "reachable pendingDelete \<and> \<not> confirmClear pendingDelete \<and>
   confirmDeleteId pendingDelete = Some 1 \<and> (1::nat) \<noteq> 2 \<and>
   enabled (Delete 2) pendingDelete \<and> enabled ClearAll pendingDelete \<and>
   confirmDeleteId (step (Delete 2) pendingDelete) = Some 2 \<and>
   \<not> confirmClear (step (Delete 2) pendingDelete) \<and>
   names (indexedDB (step (Delete 2) pendingDelete)) = names (indexedDB pendingDelete) \<and>
   confirmClear (step ClearAll pendingDelete) \<and>
   confirmDeleteId (step ClearAll pendingDelete) = None \<and>
   names (indexedDB (step ClearAll pendingDelete)) = names (indexedDB pendingDelete) \<and>
   hd (names twoDB) \<in> set (names (indexedDB pendingDelete)) \<and>
   hd (names twoDB) \<notin> set (names (indexedDB (step (Delete 1) pendingDelete))) \<and>
   id' (hd (names twoDB)) = 1 \<and>
   reachable pendingClear \<and> enabled (Delete 1) pendingClear \<and> confirmClear pendingClear \<and>
   confirmDeleteId (step (Delete 1) pendingClear) = Some 1 \<and>
   \<not> confirmClear (step (Delete 1) pendingClear) \<and>
   names (indexedDB (step (Delete 1) pendingClear)) = names (indexedDB pendingClear)"
proof -
  note d = one_confirmation_at_a_time [OF reachable_pendingDelete, where k = 2 and j = 1
      and r = "hd (names twoDB)" and e = "Delete 1"]
  note c = one_confirmation_at_a_time [OF reachable_pendingClear, where k = 1]
  have e2: "enabled (Delete 2) pendingDelete" and ec: "enabled ClearAll pendingDelete"
    and e1: "enabled (Delete 1) pendingClear"
    by (simp_all add: pendingDelete_fields pendingClear_fields) (simp_all add: twoDB_eq)
  have p: "confirmDeleteId pendingDelete = Some 1" "\<not> confirmClear pendingDelete"
    "confirmClear pendingClear"
    by (simp_all add: pendingDelete_fields pendingClear_fields)
  have r: "hd (names twoDB) \<in> set (names (indexedDB pendingDelete))"
    "id' (hd (names twoDB)) = 1"
    by (simp_all add: pendingDelete_fields) (simp_all add: twoDB_eq)
  have left: "id' ` set (names (indexedDB (step (Delete 1) pendingDelete))) = {2}"
    by (simp add: handleDelete_indexedDB pendingDelete_fields deleteRecord_healthy twoDB_eq)
  have gone: "hd (names twoDB) \<notin> set (names (indexedDB (step (Delete 1) pendingDelete)))"
  proof
    assume "hd (names twoDB) \<in> set (names (indexedDB (step (Delete 1) pendingDelete)))"
    then have "id' (hd (names twoDB))
        \<in> id' ` set (names (indexedDB (step (Delete 1) pendingDelete)))"
      by (rule imageI)
    then show False using left r(2) by simp
  qed
  have d4: "confirmDeleteId (step (Delete 2) pendingDelete) = Some 2
      \<and> names (indexedDB (step (Delete 2) pendingDelete)) = names (indexedDB pendingDelete)"
    using d e2 p by simp
  have d2: "\<not> confirmClear (step (Delete 2) pendingDelete)"
    using d d4 p by simp
  have d6: "confirmClear (step ClearAll pendingDelete)
      \<and> confirmDeleteId (step ClearAll pendingDelete) = None
      \<and> names (indexedDB (step ClearAll pendingDelete)) = names (indexedDB pendingDelete)"
    using d ec p by simp
  have c5: "confirmDeleteId (step (Delete 1) pendingClear) = Some 1
      \<and> \<not> confirmClear (step (Delete 1) pendingClear)
      \<and> names (indexedDB (step (Delete 1) pendingClear)) = names (indexedDB pendingClear)"
    using c e1 p by simp
  show ?thesis
    using reachable_pendingDelete reachable_pendingClear e2 ec e1 p r gone d4 d2 d6 c5
    by simp
qed

subsection \<open>Edits and pending confirmations\<close>

text \<open>
  Claim C7, as amended. Every edit of an input of the entry form (a text field, a radio
  button, a check box) puts both confirmations to idle at once, in the handler itself
  and so without any time passing. An edit of a field of the event configuration leaves
  both confirmations as they are.
\<close>

theorem form_edits_reset_confirmations:
  "\<not> confirmClear (handleInputChange name v s)
   \<and> confirmDeleteId (handleInputChange name v s) = None
   \<and> \<not> confirmClear (step (InputChange name v) s)
   \<and> confirmDeleteId (step (InputChange name v) s) = None
   \<and> \<not> confirmClear (handleStatusChange sname checked s)
   \<and> confirmDeleteId (handleStatusChange sname checked s) = None
   \<and> \<not> confirmClear (step (StatusChange sname checked) s)
   \<and> confirmDeleteId (step (StatusChange sname checked) s) = None
   \<and> confirmClear (step (ConfigChange cname v) s) = confirmClear s
   \<and> confirmDeleteId (step (ConfigChange cname v) s) = confirmDeleteId s"
  by simp

theorem form_edits_reset_confirmations_witness:
  "confirmClear pendingClear \<and> confirmDeleteId pendingDelete = Some 1
   \<and> \<not> confirmClear (step (InputChange Designation ''Nurse'') pendingClear)
   \<and> confirmDeleteId (step (StatusChange Senior True) pendingDelete) = None
   \<and> confirmClear (step (ConfigChange Venue ''Hall'') pendingClear)"
  using form_edits_reset_confirmations [of Designation "''Nurse''" pendingClear Senior True Venue]
    form_edits_reset_confirmations [of Designation "''Nurse''" pendingDelete Senior True Venue]
  by (simp add: pendingClear_fields pendingDelete_fields)

text \<open>
  The claim as stated fails for the event configuration. With the clear-all
  confirmation pending, respectively the confirmation of record 1, the user opens the
  set-up page and edits the venue; no time has passed, and the confirmation is still
  pending.
\<close>

lemma setupPending_fields:
  "currentPage setupPendingClear = Setup" "confirmClear setupPendingClear"
  "currentPage setupPendingDelete = Setup" "confirmDeleteId setupPendingDelete = Some 1"
  by (simp_all add: setupPendingClear_def setupPendingDelete_def setCurrentPage_def
        pendingClear_fields pendingDelete_fields)

lemma reachable_setupPending: "reachable setupPendingClear" "reachable setupPendingDelete"
  unfolding setupPendingClear_def setupPendingDelete_def
  by (rule reachable.after [OF reachable_pendingClear], simp)
     (rule reachable.after [OF reachable_pendingDelete], simp)

theorem config_edit_keeps_confirmation_counterexample:
  "reachable setupPendingClear \<and> enabled (ConfigChange Venue ''Hall'') setupPendingClear
   \<and> confirmClear setupPendingClear
   \<and> confirmClear (step (ConfigChange Venue ''Hall'') setupPendingClear)
   \<and> reachable setupPendingDelete \<and> enabled (ConfigChange Venue ''Hall'') setupPendingDelete
   \<and> confirmDeleteId setupPendingDelete = Some 1
   \<and> confirmDeleteId (step (ConfigChange Venue ''Hall'') setupPendingDelete) = Some 1"
  by (simp add: setupPending_fields reachable_setupPending)

subsection \<open>A deletion that fails\<close>

text \<open>
  Claim C6, as amended. When the confirming request makes the destructive adapter call
  and the call fails, the handler shows the message of the error it caught (a fixed
  text of its own when that message is empty), makes no further adapter call, and
  leaves the database and both confirmations as they were: the target's confirmation
  is still pending after the handler and after the render that follows.
\<close>

theorem failed_deletion_stays_pending:
  "(isDBReady s \<and> confirmDeleteId s = Some ident \<and>
    deleteRecord ident (indexedDB s) = (Inl error, db')
    \<longrightarrow> message (handleDelete ident s)
          = orElse (error_message error) ''Error deleting record.''
        \<and> calls (handleDelete ident s) = calls s @ [DeleteOne ident]
        \<and> indexedDB (handleDelete ident s) = indexedDB s
        \<and> confirmDeleteId (handleDelete ident s) = Some ident
        \<and> confirmClear (handleDelete ident s) = confirmClear s
        \<and> indexedDB (step (Delete ident) s) = indexedDB s
        \<and> confirmDeleteId (step (Delete ident) s) = Some ident)
   \<and> (isDBReady s \<and> confirmClear s \<and>
    deleteAllRecords (indexedDB s) = (Inl error, db')
    \<longrightarrow> message (handleClearAll s)
          = orElse (error_message error) ''Error clearing all records.''
        \<and> calls (handleClearAll s) = calls s @ [DeleteAll]
        \<and> indexedDB (handleClearAll s) = indexedDB s
        \<and> confirmClear (handleClearAll s)
        \<and> confirmDeleteId (handleClearAll s) = confirmDeleteId s
        \<and> indexedDB (step ClearAll s) = indexedDB s
        \<and> confirmClear (step ClearAll s))"
proof (intro conjI impI)
  assume h: "isDBReady s \<and> confirmDeleteId s = Some ident \<and>
    deleteRecord ident (indexedDB s) = (Inl error, db')"
  then have db: "db' = indexedDB s"
    using deleteRecord_cases [of ident "indexedDB s" "Inl error" db'] by simp
  have eq: "handleDelete ident s =
       s\<lparr>calls := calls s @ [DeleteOne ident], indexedDB := db',
         message := orElse (error_message error) ''Error deleting record.''\<rparr>"
    using h by (intro handleDelete_second_fails) simp_all
  show "message (handleDelete ident s) = orElse (error_message error) ''Error deleting record.''"
    and "calls (handleDelete ident s) = calls s @ [DeleteOne ident]"
    and "indexedDB (handleDelete ident s) = indexedDB s"
    and "confirmDeleteId (handleDelete ident s) = Some ident"
    and "confirmClear (handleDelete ident s) = confirmClear s"
    and "indexedDB (step (Delete ident) s) = indexedDB s"
    and "confirmDeleteId (step (Delete ident) s) = Some ident"
    using h db by (simp_all add: eq)
next
  assume h: "isDBReady s \<and> confirmClear s \<and>
    deleteAllRecords (indexedDB s) = (Inl error, db')"
  then have db: "db' = indexedDB s"
    using deleteAllRecords_cases [of "indexedDB s" "Inl error" db'] by simp
  have eq: "handleClearAll s =
       s\<lparr>calls := calls s @ [DeleteAll], indexedDB := db',
         message := orElse (error_message error) ''Error clearing all records.''\<rparr>"
    using h by (intro handleClearAll_second_fails) simp_all
  show "message (handleClearAll s) = orElse (error_message error) ''Error clearing all records.''"
    and "calls (handleClearAll s) = calls s @ [DeleteAll]"
    and "indexedDB (handleClearAll s) = indexedDB s"
    and "confirmClear (handleClearAll s)"
    and "confirmDeleteId (handleClearAll s) = confirmDeleteId s"
    and "indexedDB (step ClearAll s) = indexedDB s"
    and "confirmClear (step ClearAll s)"
    using h db by (simp_all add: eq)
qed

lemma failing_fields:
  "isDBReady failingDelete" "confirmDeleteId failingDelete = Some 1"
  "currentPage failingDelete = Records" "storedRecords failingDelete = rev (names twoDB)"
  "indexedDB failingDelete = twoDB\<lparr>fault := RequestFails (Error ''The transaction was aborted.'')\<rparr>"
  "isDBReady failingClear" "confirmClear failingClear"
  "currentPage failingClear = Records" "storedRecords failingClear = rev (names twoDB)"
  "indexedDB failingClear = twoDB\<lparr>fault := OpenFails (Error ''The database is blocked.'')\<rparr>"
  by (simp_all add: failingDelete_def failingClear_def pendingDelete_fields pendingClear_fields)

lemma reachable_failing: "reachable failingDelete" "reachable failingClear"
  unfolding failingDelete_def failingClear_def
  by (rule reachable.after [OF reachable_pendingDelete], simp)
     (rule reachable.after [OF reachable_pendingClear], simp)

lemma failing_calls:
  "deleteRecord 1 (indexedDB failingDelete)
     = (Inl (Error ''The transaction was aborted.''), indexedDB failingDelete)"
  "deleteAllRecords (indexedDB failingClear)
     = (Inl (Error IDB_ERROR_MESSAGE), indexedDB failingClear)"
  by (simp_all add: failing_fields deleteRecord_def deleteAllRecords_def openDB_def
        store_delete_def)

theorem failed_deletion_stays_pending_witness:
  "isDBReady failingDelete \<and> confirmDeleteId failingDelete = Some 1
   \<and> deleteRecord 1 (indexedDB failingDelete)
       = (Inl (Error ''The transaction was aborted.''), indexedDB failingDelete)
   \<and> message (handleDelete 1 failingDelete) = ''The transaction was aborted.''
   \<and> confirmDeleteId (step (Delete 1) failingDelete) = Some 1
   \<and> names (indexedDB (step (Delete 1) failingDelete)) = names twoDB
   \<and> isDBReady failingClear \<and> confirmClear failingClear
   \<and> deleteAllRecords (indexedDB failingClear)
       = (Inl (Error IDB_ERROR_MESSAGE), indexedDB failingClear)
   \<and> message (handleClearAll failingClear) = IDB_ERROR_MESSAGE
   \<and> confirmClear (step ClearAll failingClear)
   \<and> names (indexedDB (step ClearAll failingClear)) = names twoDB"
proof -
  note d = failed_deletion_stays_pending [of failingDelete 1
      "Error ''The transaction was aborted.''" "indexedDB failingDelete", THEN conjunct1]
  note c = failed_deletion_stays_pending [of failingClear _
      "Error IDB_ERROR_MESSAGE" "indexedDB failingClear", THEN conjunct2]
  have "message (handleDelete 1 failingDelete) = ''The transaction was aborted.''"
    and "confirmDeleteId (step (Delete 1) failingDelete) = Some 1"
    and "names (indexedDB (step (Delete 1) failingDelete)) = names twoDB"
    using d failing_calls(1) by (simp_all add: failing_fields orElse_def)
  moreover have "message (handleClearAll failingClear) = IDB_ERROR_MESSAGE"
    and "confirmClear (step ClearAll failingClear)"
    and "names (indexedDB (step ClearAll failingClear)) = names twoDB"
    using c failing_calls(2) by (simp_all add: failing_fields orElse_def IDB_ERROR_MESSAGE_def)
  ultimately show ?thesis
    using failing_calls by (simp add: failing_fields)
qed

text \<open>
  The claim as stated fails: after the failed call the confirmation is not idle.
  Record 1 is pending and listed, the request on the object store fails, and the
  second request leaves record 1 pending; likewise for clear-all when the database
  does not open.
\<close>

theorem failed_deletion_not_idle_counterexample:
  "reachable failingDelete \<and> enabled (Delete 1) failingDelete
   \<and> confirmDeleteId failingDelete = Some 1
   \<and> fst (deleteRecord 1 (indexedDB failingDelete)) = Inl (Error ''The transaction was aborted.'')
   \<and> confirmDeleteId (handleDelete 1 failingDelete) = Some 1
   \<and> confirmDeleteId (step (Delete 1) failingDelete) = Some 1
   \<and> reachable failingClear \<and> enabled ClearAll failingClear \<and> confirmClear failingClear
   \<and> fst (deleteAllRecords (indexedDB failingClear)) = Inl (Error IDB_ERROR_MESSAGE)
   \<and> confirmClear (handleClearAll failingClear)
   \<and> confirmClear (step ClearAll failingClear)"
proof -
  have e: "enabled (Delete 1) failingDelete" "enabled ClearAll failingClear"
    by (simp_all add: failing_fields) (simp_all add: twoDB_eq)
  have f: "fst (deleteRecord 1 (indexedDB failingDelete)) = Inl (Error ''The transaction was aborted.'')"
    "fst (deleteAllRecords (indexedDB failingClear)) = Inl (Error IDB_ERROR_MESSAGE)"
    using failing_calls by simp_all
  have h: "confirmDeleteId (handleDelete 1 failingDelete) = Some 1"
    "confirmClear (handleClearAll failingClear)"
    using f by (simp_all add: handleDelete_confirm handleClearAll_confirm failing_fields(1,2,6,7))
  then have r: "confirmDeleteId (step (Delete 1) failingDelete) = Some 1"
    "confirmClear (step ClearAll failingClear)"
    by simp_all
  show ?thesis
    using e f h r reachable_failing failing_fields(2,7) by simp
qed

subsection \<open>Submitting\<close>

lemma simple_handlers_frame [simp]:
  "message (handleInputChange name v s) = message s"
  "isDBReady (handleInputChange name v s) = isDBReady s"
  "storedRecords (handleInputChange name v s) = storedRecords s"
  "currentPage (handleInputChange name v s) = currentPage s"
  "signatureCaptured (handleInputChange name v s) = signatureCaptured s"
  "formData (handleInputChange name v s) = setField name v (formData s)"
  "message (handleStatusChange sname checked s) = message s"
  "isDBReady (handleStatusChange sname checked s) = isDBReady s"
  "storedRecords (handleStatusChange sname checked s) = storedRecords s"
  "currentPage (handleStatusChange sname checked s) = currentPage s"
  "signatureCaptured (handleStatusChange sname checked s) = signatureCaptured s"
  "formData (handleStatusChange sname checked s)
     = (formData s)\<lparr>status := setStatus sname checked (status (formData s))\<rparr>"
  "message (handleConfigChange cname v s) = message s"
  "isDBReady (handleConfigChange cname v s) = isDBReady s"
  "currentPage (handleConfigChange cname v s) = currentPage s"
  "signatureCaptured (handleConfigChange cname v s) = signatureCaptured s"
  "formData (handleConfigChange cname v s) = formData s"
  "message (setCurrentPage p s) = message s"
  "isDBReady (setCurrentPage p s) = isDBReady s"
  "storedRecords (setCurrentPage p s) = storedRecords s"
  "currentPage (setCurrentPage p s) = p"
  "signatureCaptured (setCurrentPage p s) = signatureCaptured s"
  "formData (setCurrentPage p s) = formData s"
  "message (startDrawing s) = message s"
  "isDBReady (startDrawing s) = isDBReady s"
  "currentPage (startDrawing s) = currentPage s"
  "formData (startDrawing s) = formData s"
  "message (handleClearSignature s) = message s"
  "isDBReady (handleClearSignature s) = isDBReady s"
  "currentPage (handleClearSignature s) = currentPage s"
  "formData (handleClearSignature s) = formData s"
  by (simp_all add: handleInputChange_def handleStatusChange_def handleConfigChange_def
        setCurrentPage_def startDrawing_def handleClearSignature_def Let_def)

lemma handlers_config [simp]:
  "eventConfig (handleInputChange name v s) = eventConfig s"
  "localStorage (handleInputChange name v s) = localStorage s"
  "eventConfig (handleStatusChange sname checked s) = eventConfig s"
  "localStorage (handleStatusChange sname checked s) = localStorage s"
  "localStorage (handleConfigChange cname v s) = Some (eventConfig (handleConfigChange cname v s))"
  "eventConfig (startDrawing s) = eventConfig s"
  "localStorage (startDrawing s) = localStorage s"
  "eventConfig (handleClearSignature s) = eventConfig s"
  "localStorage (handleClearSignature s) = localStorage s"
  "eventConfig (setCurrentPage q s) = eventConfig s"
  "localStorage (setCurrentPage q s) = localStorage s"
  "eventConfig (handleSubmit s) = eventConfig s"
  "localStorage (handleSubmit s) = localStorage s"
  "eventConfig (handleDelete ident s) = eventConfig s"
  "localStorage (handleDelete ident s) = localStorage s"
  "eventConfig (handleClearAll s) = eventConfig s"
  "localStorage (handleClearAll s) = localStorage s"
  by (simp_all add: handleInputChange_def handleStatusChange_def handleConfigChange_def
        startDrawing_def handleClearSignature_def setCurrentPage_def handleSubmit_def
        handleDelete_def handleClearAll_def Let_def split: prod.splits sum.splits)

lemma handlers_today [simp]:
  "today (handleInputChange name v s) = today s"
  "today (handleStatusChange sname checked s) = today s"
  "today (handleConfigChange cname v s) = today s"
  "today (startDrawing s) = today s"
  "today (handleClearSignature s) = today s"
  "today (setCurrentPage q s) = today s"
  "today (handleSubmit s) = today s"
  by (simp_all add: handleInputChange_def handleStatusChange_def handleConfigChange_def
        startDrawing_def handleClearSignature_def setCurrentPage_def handleSubmit_def
        Let_def split: prod.splits sum.splits)

lemma tick_formData [simp]: "formData (tick s) = formData s"
  by (simp add: tick_def fireSuccessTimer_def fireClearTimer_def fireDeleteTimer_def
        onSuccessTimeout_def onClearTimeout_def onDeleteTimeout_def Let_def)

lemma handleSubmit_formData:
  "formData (handleSubmit s) = formData s \<or> formData (handleSubmit s) = initialFormData"
  by (simp add: handleSubmit_def Let_def handleClearSignature_def split: prod.splits sum.splits)

lemma handleDelete_formData [simp]: "formData (handleDelete ident s) = formData s"
  by (simp add: handleDelete_def Let_def split: prod.splits sum.splits)

lemma handleClearAll_formData [simp]: "formData (handleClearAll s) = formData s"
  by (simp add: handleClearAll_def Let_def split: prod.splits sum.splits)

text \<open>The radio buttons keep \<^verbatim>\<open>sex\<close> at \<^verbatim>\<open>M\<close> or \<^verbatim>\<open>F\<close>; nothing else writes it.\<close>

lemma step_sex:
  assumes "enabled e s" and "sex (formData s) = ''M'' \<or> sex (formData s) = ''F''"
  shows "sex (formData (step e s)) = ''M'' \<or> sex (formData (step e s)) = ''F''"
proof (cases e)
  case (InputChange name v)
  then show ?thesis using assms by (cases name) auto
next
  case Submit
  then show ?thesis
    using assms handleSubmit_formData [of s] by (auto simp: initialFormData_def)
qed (use assms in simp_all)

lemma reachable_sex:
  "reachable s \<Longrightarrow> sex (formData s) = ''M'' \<or> sex (formData s) = ''F''"
proof (induction rule: reachable.induct)
  case (mounted db saved now date png)
  show ?case by (simp add: mount_def initialApp_def initialFormData_def)
next
  case (after s e)
  then show ?case by (intro step_sex)
qed

lemma trim_empty [simp]: "trim [] = []"
  by (simp add: trim_def)

text \<open>
  Claim C9. In every reachable state \<^verbatim>\<open>handleSubmit\<close> calls the adapter only when the four
  required fields are non-empty and a signature has been captured, and the call it
  then makes first is the insertion of the form's data. When a required field is empty
  or no signature has been captured, it makes no adapter call, leaves the database as
  it is and shows one of its two validation messages. (The handler tests the three
  text fields after trimming; \<^verbatim>\<open>sex\<close> it does not test, the radio buttons keep it at
  \<^verbatim>\<open>M\<close> or \<^verbatim>\<open>F\<close>.)
\<close>

theorem submit_validates_before_insert:
  assumes "reachable s"
  shows "(completeName (formData s) = [] \<or> sex (formData s) = [] \<or>
          designation (formData s) = [] \<or> division (formData s) = [] \<or>
          \<not> signatureCaptured s
          \<longrightarrow> calls (handleSubmit s) = calls s
              \<and> indexedDB (handleSubmit s) = indexedDB s
              \<and> (message (handleSubmit s)
                    = ''Please fill in all required fields (indicated by *).''
                 \<or> message (handleSubmit s) = ''Please provide a signature in section 6.''))
       \<and> (calls (handleSubmit s) \<noteq> calls s
          \<longrightarrow> completeName (formData s) \<noteq> [] \<and> sex (formData s) \<noteq> []
              \<and> designation (formData s) \<noteq> [] \<and> division (formData s) \<noteq> []
              \<and> signatureCaptured s
              \<and> (\<exists>more. calls (handleSubmit s)
                    = calls s @ Insert (clock s) ((formData s)\<lparr>signature := Some (canvasPNG s)\<rparr>)
                        # more))"
proof -
  have sex: "sex (formData s) \<noteq> []"
    using reachable_sex [OF assms] by auto
  have a: "completeName (formData s) = [] \<or> designation (formData s) = [] \<or>
          division (formData s) = [] \<or> \<not> signatureCaptured s
          \<Longrightarrow> calls (handleSubmit s) = calls s
              \<and> indexedDB (handleSubmit s) = indexedDB s
              \<and> (message (handleSubmit s)
                    = ''Please fill in all required fields (indicated by *).''
                 \<or> message (handleSubmit s) = ''Please provide a signature in section 6.'')"
    by (auto simp: handleSubmit_def)
  have b: "calls (handleSubmit s) \<noteq> calls s
          \<Longrightarrow> completeName (formData s) \<noteq> [] \<and> designation (formData s) \<noteq> []
              \<and> division (formData s) \<noteq> [] \<and> signatureCaptured s
              \<and> (\<exists>more. calls (handleSubmit s)
                    = calls s @ Insert (clock s) ((formData s)\<lparr>signature := Some (canvasPNG s)\<rparr>)
                        # more)"
    by (auto simp: handleSubmit_def Let_def handleClearSignature_def
          split: if_splits prod.splits sum.splits)
  show ?thesis using sex a b by blast
qed

lemma emptyForm_fields:
  "indexedDB emptyForm = twoDB" "isDBReady emptyForm" "message emptyForm = ''''"
  "currentPage emptyForm = Form" "formData emptyForm = initialFormData"
  "\<not> signatureCaptured emptyForm" "localStorage emptyForm = Some summit"
  by (simp_all add: emptyForm_def render_isDBReady render_message appStart_fields)
     (simp_all add: appStart_def mount_def loadConfigAndFetch_def initialApp_def)

lemma reachable_emptyForm: "reachable emptyForm"
  unfolding emptyForm_def by (rule reachable.after [OF reachable_appStart]) simp

lemma filledForm_fields:
  "indexedDB filledForm = twoDB" "isDBReady filledForm" "message filledForm = ''''"
  "currentPage filledForm = Form" "formData filledForm = ana" "signatureCaptured filledForm"
  "localStorage filledForm = Some summit"
  by (simp_all add: filledForm_def render_isDBReady render_message emptyForm_fields
        startDrawing_def canvasRef_def initialFormData_def ana_def)

lemma reachable_filledForm: "reachable filledForm"
  unfolding filledForm_def
  by (intro reachable.after reachable_emptyForm)
     (simp_all add: render_isDBReady emptyForm_fields)

lemma trim_ana:
  "trim ''Ana Cruz'' = ''Ana Cruz''" "trim ''Nurse'' = ''Nurse''" "trim ''Health'' = ''Health''"
  by (simp_all add: trim_def isWhiteSpace_def)

lemma ana_fields:
  "completeName ana = ''Ana Cruz''" "designation ana = ''Nurse''" "division ana = ''Health''"
  "sex ana = ''F''"
  by (simp_all add: ana_def)

lemma handleSubmit_stores:
  assumes "trim (completeName (formData s)) \<noteq> []" "trim (designation (formData s)) \<noteq> []"
    "trim (division (formData s)) \<noteq> []" "signatureCaptured s" "currentPage s = Form"
    "isDBReady s"
    and "addRecord (clock s) ((formData s)\<lparr>signature := Some (canvasPNG s)\<rparr>) (indexedDB s)
          = (Inr key, db')"
  shows "handleSubmit s =
      s\<lparr>calls := calls s
             @ [Insert (clock s) ((formData s)\<lparr>signature := Some (canvasPNG s)\<rparr>), ListAll],
        fetching := Some (message s),
        indexedDB := db', formData := initialFormData, signatureCaptured := False,
        message := IDB_SUCCESS_MESSAGE, confirmClear := False, confirmDeleteId := None\<rparr>"
  using assms
  by (simp add: handleSubmit_def Let_def handleClearSignature_def canvasRef_def
        startFetchRecords_def)

lemma handleSubmit_fails:
  assumes "trim (completeName (formData s)) \<noteq> []" "trim (designation (formData s)) \<noteq> []"
    "trim (division (formData s)) \<noteq> []" "signatureCaptured s" "currentPage s = Form"
    "isDBReady s"
    and "addRecord (clock s) ((formData s)\<lparr>signature := Some (canvasPNG s)\<rparr>) (indexedDB s)
          = (Inl error, db')"
  shows "handleSubmit s =
      s\<lparr>calls := calls s @ [Insert (clock s) ((formData s)\<lparr>signature := Some (canvasPNG s)\<rparr>)],
        indexedDB := db', message := orElse (error_message error) IDB_ERROR_MESSAGE\<rparr>"
  using assms by (simp add: handleSubmit_def Let_def canvasRef_def)

lemma filledForm_guards:
  "trim (completeName (formData filledForm)) \<noteq> []"
  "trim (designation (formData filledForm)) \<noteq> []"
  "trim (division (formData filledForm)) \<noteq> []"
  by (simp_all add: filledForm_fields ana_fields trim_ana)

lemma handleSubmit_filledForm:
  "handleSubmit filledForm =
        (filledForm\<lparr>calls := calls filledForm
               @ [Insert (clock filledForm)
                    ((formData filledForm)\<lparr>signature := Some (canvasPNG filledForm)\<rparr>), ListAll],
           fetching := Some (message filledForm),
           indexedDB := twoDB\<lparr>names := names twoDB
               @ [record_object.extend
                    (form_data.extend ((formData filledForm)\<lparr>signature := Some (canvasPNG filledForm)\<rparr>)
                       (record_object.fields (clock filledForm)))
                    (attendance.fields (keyGenerator twoDB))],
             keyGenerator := keyGenerator twoDB + 1\<rparr>,
           formData := initialFormData, signatureCaptured := False,
           message := IDB_SUCCESS_MESSAGE, confirmClear := False, confirmDeleteId := None\<rparr>)"
proof (rule handleSubmit_stores [OF filledForm_guards])
  show "addRecord (clock filledForm)
         ((formData filledForm)\<lparr>signature := Some (canvasPNG filledForm)\<rparr>)
         (indexedDB filledForm)
        = (Inr (keyGenerator twoDB), twoDB\<lparr>names := names twoDB
               @ [record_object.extend
                    (form_data.extend ((formData filledForm)\<lparr>signature := Some (canvasPNG filledForm)\<rparr>)
                       (record_object.fields (clock filledForm)))
                    (attendance.fields (keyGenerator twoDB))],
             keyGenerator := keyGenerator twoDB + 1\<rparr>)"
    unfolding filledForm_fields(1)
    by (rule addRecord_healthy [OF idb_ok_twoDB]) (simp add: twoDB_eq)
qed (simp_all add: filledForm_fields)

lemma handleSubmit_filledForm_calls:
  "calls (handleSubmit filledForm)
     = calls filledForm
         @ [Insert (clock filledForm)
              ((formData filledForm)\<lparr>signature := Some (canvasPNG filledForm)\<rparr>), ListAll]"
  and handleSubmit_filledForm_db:
  "keyGenerator (indexedDB (handleSubmit filledForm)) = 4"
  by (simp_all add: handleSubmit_filledForm) (simp add: twoDB_eq)

theorem submit_validates_before_insert_witness:
  "reachable emptyForm \<and> completeName (formData emptyForm) = []
   \<and> calls (handleSubmit emptyForm) = calls emptyForm
   \<and> indexedDB (handleSubmit emptyForm) = indexedDB emptyForm
   \<and> message (handleSubmit emptyForm) = ''Please fill in all required fields (indicated by *).''
   \<and> reachable filledForm \<and> calls (handleSubmit filledForm) \<noteq> calls filledForm
   \<and> completeName (formData filledForm) \<noteq> [] \<and> sex (formData filledForm) \<noteq> []
   \<and> designation (formData filledForm) \<noteq> [] \<and> division (formData filledForm) \<noteq> []
   \<and> signatureCaptured filledForm
   \<and> (\<exists>more. calls (handleSubmit filledForm)
          = calls filledForm
              @ Insert (clock filledForm)
                  ((formData filledForm)\<lparr>signature := Some (canvasPNG filledForm)\<rparr>) # more)"
proof -
  note e = submit_validates_before_insert [OF reachable_emptyForm, THEN conjunct1]
  note f = submit_validates_before_insert [OF reachable_filledForm, THEN conjunct2]
  have blank: "completeName (formData emptyForm) = []"
    by (simp add: emptyForm_fields initialFormData_def)
  have m: "message (handleSubmit emptyForm)
      = ''Please fill in all required fields (indicated by *).''"
    by (simp add: handleSubmit_def emptyForm_fields initialFormData_def)
  have called: "calls (handleSubmit filledForm) \<noteq> calls filledForm"
    by (simp add: handleSubmit_filledForm_calls)
  show ?thesis
    using e f blank m called reachable_emptyForm reachable_filledForm by simp
qed

text \<open>
  The effect that reloads the configuration puts back what \<^verbatim>\<open>localStorage\<close> holds; once a
  configuration has been saved, that is the configuration in use.
\<close>

lemma runEffects_eventConfig:
  assumes "localStorage c = Some (eventConfig c)"
  shows "eventConfig (runEffects p c) = eventConfig c"
  using assms by (simp add: runEffects_def arm_defs Let_def loadConfigAndFetch_def)

lemma render_eventConfig:
  assumes "localStorage c = Some (eventConfig c)"
  shows "eventConfig (render p c) = eventConfig c"
proof -
  have "localStorage (runEffects p c) = Some (eventConfig (runEffects p c))"
    using assms by (simp add: runEffects_eventConfig)
  then show ?thesis
    using assms by (simp add: render_def runEffects_eventConfig)
qed

lemma render_config_saved:
  assumes "localStorage c = Some x \<longrightarrow> eventConfig c = x"
  shows "localStorage (render p c) = Some x \<longrightarrow> eventConfig (render p c) = x"
  using assms by (auto simp: render_eventConfig)

lemma resolveFetch_config_saved:
  assumes "localStorage r = Some x \<longrightarrow> eventConfig r = x"
  shows "localStorage (resolveFetch r) = Some x \<longrightarrow> eventConfig (resolveFetch r) = x"
proof (cases "fetching r")
  case None
  then show ?thesis using assms by (simp add: resolveFetch_None)
next
  case (Some m)
  show ?thesis
    unfolding resolveFetch_Some [OF Some]
    by (rule render_config_saved) (use assms in simp)
qed

lemma fire_config_saved:
  assumes "localStorage s = Some x \<longrightarrow> eventConfig s = x"
  shows "localStorage (fireSuccessTimer s) = Some x \<longrightarrow> eventConfig (fireSuccessTimer s) = x"
    and "localStorage (fireClearTimer s) = Some x \<longrightarrow> eventConfig (fireClearTimer s) = x"
    and "localStorage (fireDeleteTimer s) = Some x \<longrightarrow> eventConfig (fireDeleteTimer s) = x"
  using assms
  by (auto simp: fireSuccessTimer_def fireClearTimer_def fireDeleteTimer_def
        onSuccessTimeout_def onClearTimeout_def onDeleteTimeout_def Let_def
        intro!: render_config_saved [THEN mp])

lemma tick_config_saved:
  assumes "localStorage s = Some x \<longrightarrow> eventConfig s = x"
  shows "localStorage (tick s) = Some x \<longrightarrow> eventConfig (tick s) = x"
  unfolding tick_def
  by (intro fire_config_saved) (use assms in simp)

lemma step_config_saved:
  assumes "localStorage s = Some x \<longrightarrow> eventConfig s = x"
  shows "localStorage (step e s) = Some x \<longrightarrow> eventConfig (step e s) = x"
proof (cases e)
  case (ConfigChange cname v)
  then show ?thesis by (auto simp: render_eventConfig)
next
  case Tick
  then show ?thesis using assms by (simp add: tick_config_saved)
next
  case Submit
  show ?thesis
    unfolding Submit step.simps
    by (intro resolveFetch_config_saved render_config_saved) (use assms in simp)
next
  case (Delete ident)
  show ?thesis
    unfolding Delete step.simps
    by (intro resolveFetch_config_saved render_config_saved) (use assms in simp)
next
  case ClearAll
  show ?thesis
    unfolding ClearAll step.simps
    by (intro resolveFetch_config_saved render_config_saved) (use assms in simp)
qed (use assms in \<open>auto intro!: render_config_saved [THEN mp]\<close>)

lemma reachable_config_saved:
  "reachable s \<Longrightarrow> localStorage s = Some x \<longrightarrow> eventConfig s = x"
proof (induction rule: reachable.induct)
  case (mounted db saved now date png)
  show ?case
    unfolding mount_def
    by (rule render_config_saved) (simp add: loadConfigAndFetch_def split: option.splits)
next
  case (after s e)
  then show ?case by (simp add: step_config_saved)
qed

text \<open>
  After a submission that stores a record the handler has reset the form to
  \<^verbatim>\<open>initialFormData\<close> (all texts empty, \<^verbatim>\<open>sex\<close> \<^verbatim>\<open>M\<close>, the three flags false), the signature
  counts as not captured, both confirmations are idle, and the event configuration and
  its stored copy are as before. The renders that follow keep the form, the signature
  flag and the confirmations so, and they keep the event configuration whenever that is
  the one in \<^verbatim>\<open>localStorage\<close>, as it is in every reachable state that has one stored.
\<close>

lemma submit_resets_form:
  assumes "indexedDB (handleSubmit s) \<noteq> indexedDB s"
  shows "formData (handleSubmit s) = initialFormData
       \<and> completeName (formData (handleSubmit s)) = ''''
       \<and> sex (formData (handleSubmit s)) = ''M''
       \<and> designation (formData (handleSubmit s)) = ''''
       \<and> division (formData (handleSubmit s)) = ''''
       \<and> status (formData (handleSubmit s)) = \<lparr>pwd = False, senior = False, osy = False\<rparr>
       \<and> \<not> signatureCaptured (handleSubmit s)
       \<and> \<not> confirmClear (handleSubmit s) \<and> confirmDeleteId (handleSubmit s) = None
       \<and> eventConfig (handleSubmit s) = eventConfig s
       \<and> localStorage (handleSubmit s) = localStorage s
       \<and> formData (step Submit s) = initialFormData
       \<and> \<not> signatureCaptured (step Submit s)
       \<and> \<not> confirmClear (step Submit s) \<and> confirmDeleteId (step Submit s) = None
       \<and> (localStorage s = Some (eventConfig s)
            \<longrightarrow> eventConfig (step Submit s) = eventConfig s)"
proof -
  let ?rd = "(formData s)\<lparr>signature := Some (canvasPNG s)\<rparr>"
  obtain r db' where a: "addRecord (clock s) ?rd (indexedDB s) = (r, db')"
    by (cases "addRecord (clock s) ?rd (indexedDB s)")
  have guards: "trim (completeName (formData s)) \<noteq> [] \<and> trim (designation (formData s)) \<noteq> []
      \<and> trim (division (formData s)) \<noteq> [] \<and> signatureCaptured s \<and> canvasRef s \<and> isDBReady s"
    using assms by (auto simp: handleSubmit_def split: if_splits)
  have "\<exists>key. r = Inr key"
  proof (cases r)
    case (Inl e)
    then have "db' = indexedDB s" using addRecord_cases [OF a] by auto
    then have "indexedDB (handleSubmit s) = indexedDB s"
      using guards a Inl by (simp add: handleSubmit_def Let_def)
    then show ?thesis using assms by simp
  next
    case (Inr key) then show ?thesis by simp
  qed
  then obtain key where r: "r = Inr key" by blast
  have eq: "handleSubmit s =
      s\<lparr>calls := calls s @ [Insert (clock s) ?rd, ListAll], fetching := Some (message s),
        indexedDB := db', formData := initialFormData, signatureCaptured := False,
        message := IDB_SUCCESS_MESSAGE, confirmClear := False, confirmDeleteId := None\<rparr>"
    using guards a r by (intro handleSubmit_stores) (simp_all add: canvasRef_def)
  have h: "formData (handleSubmit s) = initialFormData"
    "\<not> signatureCaptured (handleSubmit s)"
    "\<not> confirmClear (handleSubmit s)" "confirmDeleteId (handleSubmit s) = None"
    "eventConfig (handleSubmit s) = eventConfig s"
    "localStorage (handleSubmit s) = localStorage s"
    by (simp_all add: eq)
  have "localStorage s = Some (eventConfig s) \<longrightarrow> eventConfig (step Submit s) = eventConfig s"
    using step_config_saved [of s "eventConfig s" Submit] by simp
  then show ?thesis
    using h by (simp add: initialFormData_def)
qed

text \<open>
  With nothing saved in \<^verbatim>\<open>localStorage\<close>, the effect sets the event date to today's
  whenever it runs, and it runs in every render that finds the message changed.
\<close>

lemma runEffects_eventConfig_unsaved:
  assumes "localStorage c = None"
  shows "eventConfig (runEffects p c) =
     (if message c = message p then eventConfig c
      else (eventConfig c)\<lparr>eventDate := today c\<rparr>)"
  using assms by (simp add: runEffects_def arm_defs Let_def loadConfigAndFetch_def)

lemma render_eventConfig_same:
  assumes "message c = message p"
  shows "eventConfig (render p c) = eventConfig c"
proof -
  have "message (runEffects p c) = message c"
    using assms by (simp add: runEffects_message)
  moreover have "eventConfig (runEffects p c) = eventConfig c"
    using assms by (simp add: runEffects_def arm_defs Let_def)
  ultimately show ?thesis
    by (simp add: render_def runEffects_def [of c] arm_defs Let_def)
qed

lemma render_eventConfig_unsaved:
  assumes "localStorage c = None" and "message c \<noteq> message p"
  shows "eventConfig (render p c) = (eventConfig c)\<lparr>eventDate := today c\<rparr>"
proof -
  have "localStorage (runEffects p c) = None" using assms(1) by simp
  then show ?thesis
    using assms
    by (simp add: render_def runEffects_eventConfig_unsaved [of "runEffects p c" c]
          runEffects_eventConfig_unsaved [of c p])
qed

lemma render_eventConfig_today:
  assumes "localStorage c = None" and "eventDate (eventConfig c) = today c"
  shows "eventConfig (render p c) = eventConfig c"
proof (cases "message c = message p")
  case True
  then show ?thesis by (rule render_eventConfig_same)
next
  case False
  then show ?thesis using assms by (simp add: render_eventConfig_unsaved)
qed

text \<open>The calls of a render: one listing for each round that finds the message changed.\<close>

lemma runEffects_calls:
  "calls (runEffects p c) = (if message c = message p then calls c else calls c @ [ListAll])"
  by (simp add: runEffects_def arm_defs Let_def loadConfigAndFetch_def split: option.splits)

lemma render_calls:
  "calls (render p c) =
     (if message c = message p then calls c
      else if message (render p c) = message c then calls c @ [ListAll]
      else calls c @ [ListAll, ListAll])"
proof -
  let ?x = "runEffects p c"
  have m: "message (render p c) = message ?x"
    by (simp add: render_message runEffects_message split: sum.splits)
  have r: "calls (render p c) = (if message ?x = message c then calls ?x else calls ?x @ [ListAll])"
    unfolding render_def by (rule runEffects_calls)
  show ?thesis
  proof (cases "message c = message p")
    case True
    then have "message ?x = message c" by (simp add: runEffects_message)
    then show ?thesis using True r by (simp add: runEffects_calls)
  next
    case False
    then have "calls ?x = calls c @ [ListAll]" by (simp add: runEffects_calls)
    then show ?thesis using False r m by simp
  qed
qed

lemma overnight_fields:
  "indexedDB overnight = twoDB" "isDBReady overnight" "message overnight = ''''"
  "currentPage overnight = Form" "signatureCaptured overnight"
  "localStorage overnight = None" "today overnight = ''2026-11-04''"
  "formData overnight = initialFormData\<lparr>completeName := ''Ana Cruz'',
      designation := ''Nurse'', division := ''Health''\<rparr>"
  "eventConfig overnight = \<lparr>activityName = '''', venue = '''', eventDate = ''2026-11-03''\<rparr>"
  "reachable overnight"
proof -
  define a where "a = mount (initialApp twoDB None 0 ''2026-11-03'' ''data:image/png;base64,CCC'')"
  define b where "b = step (GoTo Form) (step (NewDay ''2026-11-04'') a)"
  define c where "c = step (InputChange Division ''Health'')
      (step (InputChange Designation ''Nurse'') (step (InputChange CompleteName ''Ana Cruz'') b))"
  have o: "overnight = step StartDrawing c"
    by (simp add: overnight_def a_def b_def c_def)
  have a: "indexedDB a = twoDB" "isDBReady a" "message a = ''''" "localStorage a = None"
    "\<not> signatureCaptured a" "formData a = initialFormData"
    by (simp_all add: a_def mount_def render_message render_isDBReady
          loadConfigAndFetch_message loadConfigAndFetch_isDBReady initialApp_def
          getAllRecords_twoDB)
  have "eventConfig (loadConfigAndFetch
      (initialApp twoDB None 0 ''2026-11-03'' ''data:image/png;base64,CCC''))
      = \<lparr>activityName = '''', venue = '''', eventDate = ''2026-11-03''\<rparr>"
    by (simp add: loadConfigAndFetch_def initialApp_def)
  then have ac: "eventConfig a = \<lparr>activityName = '''', venue = '''', eventDate = ''2026-11-03''\<rparr>"
    unfolding a_def mount_def
    by (subst render_eventConfig_today) (simp_all add: initialApp_def)
  have ra: "reachable a"
    unfolding a_def by (rule reachable.mounted) (rule idb_ok_twoDB)
  have b: "indexedDB b = twoDB" "isDBReady b" "message b = ''''" "localStorage b = None"
    "\<not> signatureCaptured b" "formData b = initialFormData" "currentPage b = Form"
    "today b = ''2026-11-04''"
    "eventConfig b = \<lparr>activityName = '''', venue = '''', eventDate = ''2026-11-03''\<rparr>"
    using a ac
    by (simp_all add: b_def render_message render_isDBReady render_eventConfig_same
          setCurrentPage_def)
  have rb: "reachable b"
    unfolding b_def by (intro reachable.after ra) simp_all
  have c: "indexedDB c = twoDB" "isDBReady c" "message c = ''''" "localStorage c = None"
    "\<not> signatureCaptured c" "currentPage c = Form" "today c = ''2026-11-04''"
    "formData c = initialFormData\<lparr>completeName := ''Ana Cruz'',
        designation := ''Nurse'', division := ''Health''\<rparr>"
    "eventConfig c = \<lparr>activityName = '''', venue = '''', eventDate = ''2026-11-03''\<rparr>"
    using b
    by (simp_all add: c_def render_message render_isDBReady render_eventConfig_same)
  have rc: "reachable c"
    unfolding c_def
    by (intro reachable.after rb) (simp_all add: render_isDBReady b)
  show "indexedDB overnight = twoDB" "isDBReady overnight" "message overnight = ''''"
    "currentPage overnight = Form" "signatureCaptured overnight"
    "localStorage overnight = None" "today overnight = ''2026-11-04''"
    "formData overnight = initialFormData\<lparr>completeName := ''Ana Cruz'',
        designation := ''Nurse'', division := ''Health''\<rparr>"
    "eventConfig overnight = \<lparr>activityName = '''', venue = '''', eventDate = ''2026-11-03''\<rparr>"
    using c
    by (simp_all add: o render_message render_isDBReady render_eventConfig_same
          startDrawing_def canvasRef_def)
  show "reachable overnight"
    unfolding o by (rule reachable.after [OF rc]) (simp add: c)
qed

text \<open>
  Claim C10 does not hold of the code in its last part. The handler resets the form,
  the signature flag and both confirmations and leaves the event configuration alone,
  as the claim says. But the effect that loads the configuration, which by its comment
  runs on mount, depends on \<^verbatim>\<open>fetchRecords\<close>, and \<^verbatim>\<open>fetchRecords\<close> is made anew whenever \<^verbatim>\<open>message\<close>
  changes: the success message of the submission runs the effect again, and with
  nothing saved in \<^verbatim>\<open>localStorage\<close> it puts today's date into \<^verbatim>\<open>eventDate\<close>. In a session that
  began on 2026-11-03 and is still open on 2026-11-04, with the form filled in and
  signed, the submission stores the record (one insertion, then three listings) and
  changes the event date from 2026-11-03 to 2026-11-04.
\<close>

theorem submit_changes_event_date:
  "reachable overnight \<and> enabled Submit overnight \<and> signatureCaptured overnight
   \<and> localStorage overnight = None
   \<and> eventDate (eventConfig overnight) = ''2026-11-03''
   \<and> today overnight = ''2026-11-04''
   \<and> length (names (indexedDB overnight)) = 2
   \<and> length (names (indexedDB (step Submit overnight))) = 3
   \<and> formData (step Submit overnight) = initialFormData
   \<and> \<not> signatureCaptured (step Submit overnight)
   \<and> \<not> confirmClear (step Submit overnight)
   \<and> confirmDeleteId (step Submit overnight) = None
   \<and> eventConfig (handleSubmit overnight) = eventConfig overnight
   \<and> eventDate (eventConfig (step Submit overnight)) = ''2026-11-04''
   \<and> eventConfig (step Submit overnight) \<noteq> eventConfig overnight
   \<and> calls (step Submit overnight)
        = calls overnight
            @ [Insert (clock overnight)
                 ((formData overnight)\<lparr>signature := Some (canvasPNG overnight)\<rparr>),
               ListAll, ListAll, ListAll]"
proof -
  let ?rd = "(formData overnight)\<lparr>signature := Some (canvasPNG overnight)\<rparr>"
  let ?db = "twoDB\<lparr>names := names twoDB
      @ [record_object.extend (form_data.extend ?rd (record_object.fields (clock overnight)))
           (attendance.fields (keyGenerator twoDB))],
      keyGenerator := keyGenerator twoDB + 1\<rparr>"
  let ?h = "handleSubmit overnight"
  let ?r = "render overnight ?h"
  let ?q = "?r\<lparr>fetching := None\<rparr>"
  let ?f = "finishFetchRecords '''' ?q"
  have guards: "trim (completeName (formData overnight)) \<noteq> []"
    "trim (designation (formData overnight)) \<noteq> []"
    "trim (division (formData overnight)) \<noteq> []"
    by (simp_all add: overnight_fields trim_ana)
  have add: "addRecord (clock overnight) ?rd (indexedDB overnight) = (Inr (keyGenerator twoDB), ?db)"
    unfolding overnight_fields(1)
    by (rule addRecord_healthy [OF idb_ok_twoDB]) (simp add: twoDB_eq)
  have h: "?h = overnight\<lparr>calls := calls overnight @ [Insert (clock overnight) ?rd, ListAll],
        fetching := Some (message overnight),
        indexedDB := ?db, formData := initialFormData, signatureCaptured := False,
        message := IDB_SUCCESS_MESSAGE, confirmClear := False, confirmDeleteId := None\<rparr>"
    using guards overnight_fields(5,4,2) add by (rule handleSubmit_stores)
  have hf: "message ?h = IDB_SUCCESS_MESSAGE" "fetching ?h = Some ''''" "indexedDB ?h = ?db"
    "localStorage ?h = None" "today ?h = ''2026-11-04''"
    "calls ?h = calls overnight @ [Insert (clock overnight) ?rd, ListAll]"
    "formData ?h = initialFormData" "\<not> signatureCaptured ?h"
    "\<not> confirmClear ?h" "confirmDeleteId ?h = None"
    "eventConfig ?h = eventConfig overnight"
    by (simp_all add: h overnight_fields)
  have g: "getAllRecords ?db = Inr (rev (names ?db))"
    by (rule getAllRecords_healthy) (simp add: twoDB_eq)
  have kw: "str_includes IDB_SUCCESS_MESSAGE ''success''"
    by (simp add: IDB_SUCCESS_MESSAGE_def)
  have ne: "IDB_SUCCESS_MESSAGE \<noteq> ''''"
    by (simp add: IDB_SUCCESS_MESSAGE_def)
  have changed: "message ?h \<noteq> message overnight"
    using ne by (simp add: hf overnight_fields)
  have rm: "message ?r = IDB_SUCCESS_MESSAGE"
    using changed kw g by (simp add: render_message hf)
  have rc: "eventConfig ?r = (eventConfig overnight)\<lparr>eventDate := ''2026-11-04''\<rparr>"
    using render_eventConfig_unsaved [OF hf(4) changed] by (simp add: hf overnight_fields(7))
  have rcalls: "calls ?r = calls overnight @ [Insert (clock overnight) ?rd, ListAll, ListAll]"
    using changed rm by (simp add: render_calls hf)
  have rf: "fetching ?r = Some ''''" using hf(2) by simp
  have st: "step Submit overnight = render ?q ?f"
    unfolding step.simps by (rule resolveFetch_Some [OF rf])
  have fm: "message ?f = ''''"
    using g by (simp add: finishFetchRecords_message hf)
  have changed2: "message ?f \<noteq> message ?q"
    using fm rm ne by simp
  have fl: "localStorage ?f = None" "today ?f = ''2026-11-04''" "eventConfig ?f = eventConfig ?r"
    by (simp_all add: hf overnight_fields(6,7))
  have fc: "eventConfig (render ?q ?f) = (eventConfig overnight)\<lparr>eventDate := ''2026-11-04''\<rparr>"
    using render_eventConfig_unsaved [OF fl(1) changed2] rc fl(2,3) by simp
  have m2: "message (render ?q ?f) = ''''"
    using changed2 fm g by (simp add: render_message hf)
  have fcalls: "calls (render ?q ?f)
      = calls overnight @ [Insert (clock overnight) ?rd, ListAll, ListAll, ListAll]"
    using changed2 m2 fm rcalls by (simp add: render_calls)
  have e: "enabled Submit overnight"
    using guards by (simp add: overnight_fields)
  have frame: "formData (step Submit overnight) = initialFormData"
    "\<not> signatureCaptured (step Submit overnight)"
    "\<not> confirmClear (step Submit overnight)" "confirmDeleteId (step Submit overnight) = None"
    "indexedDB (step Submit overnight) = ?db"
    by (simp_all add: hf)
  have len: "length (names (indexedDB overnight)) = 2"
    "length (names (indexedDB (step Submit overnight))) = 3"
    unfolding frame(5) by (simp_all add: overnight_fields) (simp_all add: twoDB_eq)
  have "eventDate (eventConfig (step Submit overnight)) = ''2026-11-04''"
    "eventConfig (step Submit overnight) \<noteq> eventConfig overnight"
    unfolding st fc by (simp_all add: overnight_fields)
  then show ?thesis
    using overnight_fields(10,5,6,7) e len frame(1-4) hf(11) fcalls
    unfolding st [symmetric] by (simp add: overnight_fields(9))
qed

subsection \<open>Errors of the storage\<close>

text \<open>
  What each adapter function throws. When the database does not open, the \<^verbatim>\<open>catch\<close>
  replaces the error by the generic one. When the request on the object store fails,
  the caller gets the request's own error.
\<close>

lemma adapter_open_error:
  assumes "fault db = Unsupported \<or> fault db = OpenFails e"
  shows "addRecord now recordData db = (Inl (Error IDB_ERROR_MESSAGE), db)"
    and "getAllRecords db = Inl (Error IDB_ERROR_MESSAGE)"
    and "deleteRecord ident db = (Inl (Error IDB_ERROR_MESSAGE), db)"
    and "deleteAllRecords db = (Inl (Error IDB_ERROR_MESSAGE), db)"
  using assms by (auto simp: adapter_defs)

lemma adapter_request_error:
  assumes "fault db = RequestFails e"
  shows "addRecord now recordData db = (Inl e, db)"
    and "getAllRecords db = Inl e"
    and "deleteRecord ident db = (Inl e, db)"
    and "deleteAllRecords db = (Inl e, db)"
  using assms by (simp_all add: adapter_defs)

lemma quotaForm_fields:
  "indexedDB quotaForm = twoDB\<lparr>fault := RequestFails (Error ''QuotaExceededError'')\<rparr>"
  "isDBReady quotaForm" "message quotaForm = ''''"
  "currentPage quotaForm = Form" "formData quotaForm = ana" "signatureCaptured quotaForm"
  by (simp_all add: quotaForm_def filledForm_fields)

lemma reachable_quotaForm: "reachable quotaForm"
  unfolding quotaForm_def by (rule reachable.after [OF reachable_filledForm]) simp

text \<open>
  Claim C8 does not hold of the code, which tries to do what it says: each adapter
  function wraps its body in \<^verbatim>\<open>try\<close> and throws the generic error from \<^verbatim>\<open>catch\<close>, but returns
  the promise of the request without \<^verbatim>\<open>await\<close>, so a failed request passes the \<^verbatim>\<open>catch\<close> by.
  With the form filled in and signed and the store refusing the request for lack of
  space, \<^verbatim>\<open>addRecord\<close> throws the request's error and \<^verbatim>\<open>handleSubmit\<close> shows its message,
  not the generic one.
\<close>

theorem request_error_is_not_made_generic:
  "reachable quotaForm \<and> enabled Submit quotaForm \<and> signatureCaptured quotaForm
   \<and> addRecord (clock quotaForm) ((formData quotaForm)\<lparr>signature := Some (canvasPNG quotaForm)\<rparr>)
        (indexedDB quotaForm)
       = (Inl (Error ''QuotaExceededError''), indexedDB quotaForm)
   \<and> message (handleSubmit quotaForm) = ''QuotaExceededError''
   \<and> ''QuotaExceededError'' \<noteq> IDB_ERROR_MESSAGE"
proof -
  have a: "addRecord (clock quotaForm)
        ((formData quotaForm)\<lparr>signature := Some (canvasPNG quotaForm)\<rparr>) (indexedDB quotaForm)
       = (Inl (Error ''QuotaExceededError''), indexedDB quotaForm)"
    by (rule adapter_request_error) (simp add: quotaForm_fields)
  have t: "trim (completeName (formData quotaForm)) \<noteq> []"
    "trim (designation (formData quotaForm)) \<noteq> []" "trim (division (formData quotaForm)) \<noteq> []"
    by (simp_all add: quotaForm_fields ana_def trim_ana)
  have "handleSubmit quotaForm =
      quotaForm\<lparr>calls := calls quotaForm
            @ [Insert (clock quotaForm)
                 ((formData quotaForm)\<lparr>signature := Some (canvasPNG quotaForm)\<rparr>)],
        indexedDB := indexedDB quotaForm,
        message := orElse (error_message (Error ''QuotaExceededError'')) IDB_ERROR_MESSAGE\<rparr>"
    using t a by (intro handleSubmit_fails) (simp_all add: quotaForm_fields(2,4,6))
  then have m: "message (handleSubmit quotaForm) = ''QuotaExceededError''"
    by (simp add: orElse_def)
  show ?thesis
    using a t m reachable_quotaForm by (simp add: quotaForm_fields(2,4,6) IDB_ERROR_MESSAGE_def)
qed

subsection \<open>Time\<close>

lemma countdown_simps [simp]:
  "countdown None = None" "countdown (Some n) = Some (n - 1)"
  by (simp_all add: countdown_def)

text \<open>The list keeps showing a stored record while the storage works.\<close>

lemma listed_iff:
  "listed ident s \<longleftrightarrow>
     currentPage s = Records \<and> isDBReady s \<and> ident \<in> id' ` set (storedRecords s) \<and>
     fault (indexedDB s) = Healthy \<and> ident \<in> id' ` set (names (indexedDB s))"
  by (auto simp: listed_def)

lemma render_listed:
  assumes "listed ident c"
  shows "listed ident (render p c)"
proof -
  have g: "getAllRecords (indexedDB c) = Inr (rev (names (indexedDB c)))"
    using assms by (simp add: listed_iff getAllRecords_healthy)
  show ?thesis
    using assms by (simp add: listed_iff render_isDBReady render_storedRecords g)
qed

lemma timeouts_listed:
  "listed ident s \<Longrightarrow> listed ident (onSuccessTimeout (s\<lparr>successTimer := t\<rparr>))"
  "listed ident s \<Longrightarrow> listed ident (onClearTimeout (s\<lparr>clearTimer := t\<rparr>))"
  "listed ident s \<Longrightarrow> listed ident (onDeleteTimeout (s\<lparr>deleteTimer := t\<rparr>))"
  by (simp_all add: listed_iff onSuccessTimeout_def onClearTimeout_def onDeleteTimeout_def Let_def)

lemma fire_listed:
  "listed ident s \<Longrightarrow> listed ident (fireSuccessTimer s)"
  "listed ident s \<Longrightarrow> listed ident (fireClearTimer s)"
  "listed ident s \<Longrightarrow> listed ident (fireDeleteTimer s)"
  by (simp_all add: fireSuccessTimer_def fireClearTimer_def fireDeleteTimer_def
        render_listed timeouts_listed)

lemma tick_listed: "listed ident s \<Longrightarrow> listed ident (tick s)"
  unfolding tick_def
  by (intro fire_listed) (simp add: listed_iff)

lemma elapse_listed: "listed ident s \<Longrightarrow> listed ident (elapse n s)"
  by (induction n arbitrary: s) (simp_all add: tick_listed)

text \<open>
  While a record's confirmation is pending, a render can only restart its timer at
  5000 ms, and a millisecond takes one millisecond off it: the confirmation outlives
  every span shorter than the timer.
\<close>

lemma render_pending_for:
  assumes "pending_for ident left c" and "left \<le> 5000"
  shows "pending_for ident left (render p c)"
  using assms by (auto simp: pending_for_def render_deleteTimer split: option.splits)

lemma timeouts_pending_for:
  "pending_for ident left s \<Longrightarrow> pending_for ident left (onSuccessTimeout (s\<lparr>successTimer := t\<rparr>))"
  "pending_for ident left s \<Longrightarrow> pending_for ident left (onClearTimeout (s\<lparr>clearTimer := t\<rparr>))"
  by (simp_all add: pending_for_def onSuccessTimeout_def onClearTimeout_def)

lemma fire_pending_for:
  "pending_for ident left s \<Longrightarrow> left \<le> 5000 \<Longrightarrow> pending_for ident left (fireSuccessTimer s)"
  "pending_for ident left s \<Longrightarrow> left \<le> 5000 \<Longrightarrow> pending_for ident left (fireClearTimer s)"
  by (simp_all add: fireSuccessTimer_def fireClearTimer_def render_pending_for
        timeouts_pending_for)

lemma fireDeleteTimer_not_due: "deleteTimer s \<noteq> Some 0 \<Longrightarrow> fireDeleteTimer s = s"
  by (simp add: fireDeleteTimer_def)

lemma tick_pending_for:
  assumes "pending_for ident (Suc (Suc n)) s" and "Suc n \<le> 5000"
  shows "pending_for ident (Suc n) (tick s)"
proof -
  let ?s0 = "s\<lparr>clock := clock s + 1, clearTimer := countdown (clearTimer s),
      deleteTimer := countdown (deleteTimer s), successTimer := countdown (successTimer s)\<rparr>"
  have p0: "pending_for ident (Suc n) ?s0"
    using assms(1) by (auto simp: pending_for_def split: option.splits)
  have p2: "pending_for ident (Suc n) (fireClearTimer (fireSuccessTimer ?s0))"
    using p0 assms(2) by (intro fire_pending_for)
  have "deleteTimer (fireClearTimer (fireSuccessTimer ?s0)) \<noteq> Some 0"
    using p2 by (auto simp: pending_for_def split: option.splits)
  then have "fireDeleteTimer (fireClearTimer (fireSuccessTimer ?s0))
      = fireClearTimer (fireSuccessTimer ?s0)"
    by (rule fireDeleteTimer_not_due)
  then show ?thesis using p2 by (simp add: tick_def)
qed

lemma elapse_pending_for:
  "pending_for ident (n + Suc m) s \<Longrightarrow> n + m < 5000 \<Longrightarrow> pending_for ident (Suc m) (elapse n s)"
proof (induction n arbitrary: s)
  case 0
  then show ?case by simp
next
  case (Suc n)
  have "pending_for ident (Suc (n + m)) (tick s)"
    using Suc.prems by (intro tick_pending_for) simp_all
  then show ?case using Suc.prems by (simp add: Suc.IH)
qed

lemma pending_for_confirm: "pending_for ident left s \<Longrightarrow> confirmDeleteId s = Some ident"
  by (simp add: pending_for_def)

text \<open>The first request arms the timer with 5000 ms.\<close>

lemma first_request:
  assumes "isDBReady s" and "confirmDeleteId s \<noteq> Some ident" and "fetching s = None"
  shows "confirmDeleteId (step (Delete ident) s) = Some ident"
    and "deleteTimer (step (Delete ident) s) = Some 5000"
    and "indexedDB (step (Delete ident) s) = indexedDB s"
    and "\<not> confirmClear (step (Delete ident) s)"
    and "pending_for ident 5000 (step (Delete ident) s)"
  unfolding step_Delete_first [OF assms]
  using assms by (simp_all add: handleDelete_first render_deleteTimer pending_for_def)

lemma first_request_listed:
  assumes "listed ident s" and "confirmDeleteId s \<noteq> Some ident" and "fetching s = None"
  shows "listed ident (step (Delete ident) s)"
proof -
  have r: "isDBReady s" using assms(1) by (simp add: listed_iff)
  have "listed ident (handleDelete ident s)"
    using assms by (simp add: listed_iff handleDelete_first)
  then show ?thesis
    unfolding step_Delete_first [OF r assms(2,3)] by (simp add: render_listed)
qed

text \<open>The second request, on a working storage, removes the record and nothing else.\<close>

lemma second_request:
  assumes "isDBReady s" and "confirmDeleteId s = Some ident" and "fault (indexedDB s) = Healthy"
  shows "names (indexedDB (step (Delete ident) s))
           = filter (\<lambda>r. id' r \<noteq> ident) (names (indexedDB s))"
    and "ident \<notin> id' ` set (names (indexedDB (step (Delete ident) s)))"
  using assms by (auto simp: handleDelete_indexedDB deleteRecord_healthy)

text \<open>
  With no other timer running, the record's timer counts down undisturbed, fires, and
  leaves the application at rest.
\<close>

lemma fire_not_due:
  "successTimer s \<noteq> Some 0 \<Longrightarrow> fireSuccessTimer s = s"
  "clearTimer s \<noteq> Some 0 \<Longrightarrow> fireClearTimer s = s"
  by (simp_all add: fireSuccessTimer_def fireClearTimer_def)

lemma tick_counting:
  assumes "counting ident (Suc (Suc n)) s"
  shows "counting ident (Suc n) (tick s)"
  using assms
  by (simp add: counting_def tick_def fire_not_due fireDeleteTimer_not_due)

lemma tick_counting_fires:
  assumes "counting ident (Suc 0) s"
  shows "at_rest (tick s)"
proof -
  let ?s0 = "s\<lparr>clock := clock s + 1, clearTimer := countdown (clearTimer s),
      deleteTimer := countdown (deleteTimer s), successTimer := countdown (successTimer s)\<rparr>"
  let ?c = "onDeleteTimeout (?s0\<lparr>deleteTimer := None\<rparr>)"
  have t: "tick s = render ?s0 ?c"
    using assms by (simp add: counting_def tick_def fire_not_due fireDeleteTimer_def)
  have c: "confirmDeleteId ?c = None" "clearTimer ?c = None" "successTimer ?c = None"
    "confirmClear ?c = confirmClear ?s0" "confirmDeleteId ?s0 = Some ident"
    using assms by (simp_all add: counting_def onDeleteTimeout_def Let_def)
  have m: "message ?c = message ?s0 \<or> message ?c = ''''"
    by (simp add: onDeleteTimeout_def Let_def)
  have quiet: "\<not> str_includes (message (render ?s0 ?c)) ''success''" if "message ?c \<noteq> message ?s0"
  proof -
    have "message ?c = ''''" using m that by blast
    then show ?thesis
      using that by (simp add: render_message split: sum.splits)
  qed
  have "confirmDeleteId (render ?s0 ?c) = None" using c by simp
  moreover have "deleteTimer (render ?s0 ?c) = None"
    using c by (simp add: render_deleteTimer)
  moreover have "clearTimer (render ?s0 ?c) = None"
    using c by (simp add: render_clearTimer)
  moreover have "successTimer (render ?s0 ?c) = None"
    using c quiet by (simp add: render_successTimer)
  ultimately show ?thesis by (simp add: at_rest_def t)
qed

lemma tick_at_rest: "at_rest s \<Longrightarrow> at_rest (tick s)"
  by (simp add: at_rest_def tick_def fire_not_due fireDeleteTimer_not_due)

lemma elapse_counting:
  "counting ident (n + Suc m) s \<Longrightarrow> counting ident (Suc m) (elapse n s)"
  by (induction n arbitrary: s) (simp_all add: tick_counting)

lemma elapse_at_rest: "at_rest s \<Longrightarrow> at_rest (elapse n s)"
  by (induction n arbitrary: s) (simp_all add: tick_at_rest)

lemma elapse_counting_out:
  assumes "counting ident 5000 s" and "5000 \<le> t"
  shows "at_rest (elapse t s)"
proof -
  have "counting ident (4999 + Suc 0) s" using assms(1) by simp
  then have "counting ident (Suc 0) (elapse 4999 s)" by (rule elapse_counting)
  then have "at_rest (tick (elapse 4999 s))" by (rule tick_counting_fires)
  then have "at_rest (elapse (t - 5000) (tick (elapse 4999 s)))" by (rule elapse_at_rest)
  moreover have "t = 4999 + Suc (t - 5000)" using assms(2) by arith
  then have "elapse t s = elapse (Suc (t - 5000)) (elapse 4999 s)"
    using elapse_add [of 4999 "Suc (t - 5000)" s] by simp
  ultimately show ?thesis by simp
qed

text \<open>
  A message that contains \<^verbatim>\<open>success\<close> is taken down after 3000 ms, and taking it down
  restarts the record's timer.
\<close>

lemma tick_flashing:
  assumes "flashing ident (Suc (Suc n)) s"
  shows "flashing ident (Suc n) (tick s)"
proof -
  let ?s0 = "s\<lparr>clock := clock s + 1, clearTimer := countdown (clearTimer s),
      deleteTimer := countdown (deleteTimer s), successTimer := countdown (successTimer s)\<rparr>"
  have f0: "flashing ident (Suc n) ?s0"
    using assms by (auto simp: flashing_def split: option.splits)
  then have s: "fireSuccessTimer ?s0 = ?s0"
    by (intro fire_not_due) (simp add: flashing_def)
  have f1: "flashing ident (Suc n) (fireClearTimer ?s0)"
  proof (cases "clearTimer ?s0 = Some 0")
    case True
    let ?c = "onClearTimeout (?s0\<lparr>clearTimer := None\<rparr>)"
    have "message ?c = message ?s0" "confirmDeleteId ?c = confirmDeleteId ?s0"
      "deleteTimer ?c = deleteTimer ?s0" "successTimer ?c = successTimer ?s0"
      by (simp_all add: onClearTimeout_def)
    then have "flashing ident (Suc n) (render ?s0 ?c)"
      using f0 by (simp add: flashing_def render_message render_deleteTimer render_successTimer)
    then show ?thesis using True by (simp add: fireClearTimer_def)
  next
    case False
    then show ?thesis using f0 by (simp add: fire_not_due)
  qed
  have "deleteTimer (fireClearTimer ?s0) \<noteq> Some 0"
    using f1 by (auto simp: flashing_def split: option.splits)
  then show ?thesis
    using f1 s by (simp add: tick_def fireDeleteTimer_not_due)
qed

lemma tick_flashing_fires:
  assumes "flashing ident (Suc 0) s"
  shows "pending_for ident 5000 (tick s)"
proof -
  let ?s0 = "s\<lparr>clock := clock s + 1, clearTimer := countdown (clearTimer s),
      deleteTimer := countdown (deleteTimer s), successTimer := countdown (successTimer s)\<rparr>"
  let ?c = "onSuccessTimeout (?s0\<lparr>successTimer := None\<rparr>)"
  have due: "successTimer ?s0 = Some 0" and m: "message ?c \<noteq> message ?s0"
    and c: "confirmDeleteId ?c = Some ident"
    using assms by (auto simp: flashing_def onSuccessTimeout_def)
  have "pending_for ident 5000 (render ?s0 ?c)"
    using m c by (simp add: pending_for_def render_deleteTimer)
  then have p1: "pending_for ident 5000 (fireSuccessTimer ?s0)"
    using due by (simp add: fireSuccessTimer_def)
  then have p2: "pending_for ident 5000 (fireClearTimer (fireSuccessTimer ?s0))"
    by (rule fire_pending_for(2)) simp
  then have "deleteTimer (fireClearTimer (fireSuccessTimer ?s0)) \<noteq> Some 0"
    by (auto simp: pending_for_def split: option.splits)
  then show ?thesis
    using p2 by (simp add: tick_def fireDeleteTimer_not_due)
qed

lemma elapse_flashing:
  "flashing ident (n + Suc m) s \<Longrightarrow> flashing ident (Suc m) (elapse n s)"
  by (induction n arbitrary: s) (simp_all add: tick_flashing)

text \<open>The timers of a reachable state fit its confirmations and its message.\<close>

lemma render_timers_ok:
  assumes "timers_ok p"
    and "clearTimer c = clearTimer p \<or> clearTimer c = None"
    and "successTimer c = successTimer p \<or> successTimer c = None"
  shows "timers_ok (render p c)"
proof -
  have "clearTimer (render p c) = None \<or> confirmClear (render p c)"
    using assms(1,2) by (auto simp: timers_ok_def render_clearTimer)
  moreover have "successTimer (render p c) = None
      \<or> str_includes (message (render p c)) ''success''"
  proof (cases "message c = message p")
    case True
    then show ?thesis
      using assms(1,3) by (auto simp: timers_ok_def render_successTimer render_message)
  next
    case False
    then show ?thesis by (simp add: render_successTimer)
  qed
  ultimately show ?thesis by (simp add: timers_ok_def)
qed

lemma handlers_timers [simp]:
  "clearTimer (handleInputChange name v s) = clearTimer s"
  "successTimer (handleInputChange name v s) = successTimer s"
  "clearTimer (handleStatusChange sname checked s) = clearTimer s"
  "successTimer (handleStatusChange sname checked s) = successTimer s"
  "clearTimer (handleConfigChange cname v s) = clearTimer s"
  "successTimer (handleConfigChange cname v s) = successTimer s"
  "clearTimer (startDrawing s) = clearTimer s"
  "successTimer (startDrawing s) = successTimer s"
  "clearTimer (handleClearSignature s) = clearTimer s"
  "successTimer (handleClearSignature s) = successTimer s"
  "clearTimer (setCurrentPage p s) = clearTimer s"
  "successTimer (setCurrentPage p s) = successTimer s"
  "clearTimer (handleSubmit s) = clearTimer s"
  "successTimer (handleSubmit s) = successTimer s"
  "clearTimer (handleDelete ident s) = clearTimer s"
  "successTimer (handleDelete ident s) = successTimer s"
  "clearTimer (handleClearAll s) = clearTimer s"
  "successTimer (handleClearAll s) = successTimer s"
  by (simp_all add: handleInputChange_def handleStatusChange_def handleConfigChange_def
        startDrawing_def handleClearSignature_def setCurrentPage_def handleSubmit_def
        handleDelete_def handleClearAll_def Let_def split: prod.splits sum.splits)

lemma fire_timers_ok:
  "timers_ok s \<Longrightarrow> timers_ok (fireSuccessTimer s)"
  "timers_ok s \<Longrightarrow> timers_ok (fireClearTimer s)"
  "timers_ok s \<Longrightarrow> timers_ok (fireDeleteTimer s)"
  by (auto simp: fireSuccessTimer_def fireClearTimer_def fireDeleteTimer_def
        onSuccessTimeout_def onClearTimeout_def onDeleteTimeout_def Let_def
        intro!: render_timers_ok)

lemma tick_timers_ok: "timers_ok s \<Longrightarrow> timers_ok (tick s)"
  unfolding tick_def
  by (intro fire_timers_ok) (auto simp: timers_ok_def countdown_def split: option.splits)

lemma resolveFetch_timers_ok: "timers_ok r \<Longrightarrow> timers_ok (resolveFetch r)"
proof (cases "fetching r")
  case None
  assume "timers_ok r" then show ?thesis using None by (simp add: resolveFetch_None)
next
  case (Some m)
  assume "timers_ok r"
  then have "timers_ok (r\<lparr>fetching := None\<rparr>)" by (simp add: timers_ok_def)
  then show ?thesis
    unfolding resolveFetch_Some [OF Some] by (rule render_timers_ok) simp_all
qed

lemma step_timers_ok: "timers_ok s \<Longrightarrow> timers_ok (step e s)"
  by (cases e)
     (simp_all add: render_timers_ok resolveFetch_timers_ok tick_timers_ok,
      simp_all add: timers_ok_def)

lemma reachable_timers_ok: "reachable s \<Longrightarrow> timers_ok s"
proof (induction rule: reachable.induct)
  case (mounted db saved now date png)
  have "timers_ok (initialApp db saved now date png)"
    by (simp add: timers_ok_def initialApp_def)
  then show ?case
    unfolding mount_def by (rule render_timers_ok) (simp_all add: initialApp_def)
next
  case (after s e)
  then show ?case by (simp add: step_timers_ok)
qed

text \<open>
  When the warning does not contain \<^verbatim>\<open>success\<close>, the first request leaves the record's
  timer as the only one that runs.
\<close>

lemma first_request_counting:
  assumes "timers_ok s" and "isDBReady s" and "confirmDeleteId s \<noteq> Some ident"
    and "\<not> str_includes (confirmDeleteMessage (recordName ident (storedRecords s))) ''success''"
    and "fetching s = None"
  shows "counting ident 5000 (step (Delete ident) s)"
proof -
  let ?c = "handleDelete ident s"
  have c: "message ?c = confirmDeleteMessage (recordName ident (storedRecords s))"
    "\<not> confirmClear ?c" "confirmDeleteId ?c = Some ident"
    using assms(2,3) by (simp_all add: handleDelete_first)
  have "clearTimer (render s ?c) = None"
    using assms(1) c(2) by (auto simp: render_clearTimer timers_ok_def)
  moreover have "successTimer (render s ?c) = None"
  proof (cases "message ?c = message s")
    case True
    then show ?thesis
      using assms(1,4) c(1) by (auto simp: render_successTimer timers_ok_def)
  next
    case False
    then have "\<not> str_includes (message (render s ?c)) ''success''"
      using assms(4) c(1) by (simp add: render_message split: sum.splits)
    then show ?thesis
      using False by (simp add: render_successTimer)
  qed
  ultimately show ?thesis
    using first_request [OF assms(2,3,5)]
    unfolding step_Delete_first [OF assms(2,3,5)] by (simp add: counting_def)
qed

subsection \<open>Two requests to delete a record\<close>

text \<open>
  What the two-step deletion does in every reachable state where the list offers the
  delete button of record \<open>ident\<close> and no confirmation for \<open>ident\<close> is pending. One request
  never deletes: the store is as before, the handler calls no adapter function and
  shows the warning, and the confirmation of \<open>ident\<close> is pending. If the record is in the
  store and the storage works, then after any \<open>t < 5000\<close> milliseconds without another
  event the confirmation is still pending, the record is still stored, and a second
  request removes exactly the records with that key. After \<open>u \<ge> 5000\<close> milliseconds
  without another event the confirmation is idle again, so that a further single
  request deletes nothing, when the warning does not contain \<^verbatim>\<open>success\<close>.
\<close>

lemma two_requests:
  assumes "enabled (Delete ident) s" and "confirmDeleteId s \<noteq> Some ident"
    and "reachable s"
  shows "names (indexedDB (step (Delete ident) s)) = names (indexedDB s)
       \<and> calls (handleDelete ident s) = calls s
       \<and> message (handleDelete ident s)
            = confirmDeleteMessage (recordName ident (storedRecords s))
       \<and> confirmDeleteId (step (Delete ident) s) = Some ident
       \<and> (fault (indexedDB s) = Healthy \<and> ident \<in> id' ` set (names (indexedDB s))
            \<and> t < 5000
           \<longrightarrow> confirmDeleteId (elapse t (step (Delete ident) s)) = Some ident
             \<and> names (indexedDB (elapse t (step (Delete ident) s))) = names (indexedDB s)
             \<and> names (indexedDB (step (Delete ident) (elapse t (step (Delete ident) s))))
                  = filter (\<lambda>r. id' r \<noteq> ident) (names (indexedDB s))
             \<and> ident \<notin> id' ` set (names (indexedDB
                  (step (Delete ident) (elapse t (step (Delete ident) s))))))
       \<and> (fault (indexedDB s) = Healthy
            \<and> ident \<in> id' ` set (names (indexedDB s))
            \<and> \<not> str_includes (confirmDeleteMessage (recordName ident (storedRecords s)))
                  ''success''
            \<and> 5000 \<le> u
           \<longrightarrow> confirmDeleteId (elapse u (step (Delete ident) s)) = None
             \<and> names (indexedDB (elapse u (step (Delete ident) s))) = names (indexedDB s)
             \<and> confirmDeleteId (step (Delete ident) (elapse u (step (Delete ident) s)))
                  = Some ident
             \<and> names (indexedDB (step (Delete ident) (elapse u (step (Delete ident) s))))
                  = names (indexedDB s))"
proof -
  let ?s1 = "step (Delete ident) s"
  have ready: "isDBReady s" using assms(1) by simp
  have nf: "fetching s = None" using assms(3) by (rule reachable_fetching)
  note first = first_request [OF ready assms(2) nf]
  have one: "names (indexedDB ?s1) = names (indexedDB s)"
    "calls (handleDelete ident s) = calls s"
    "message (handleDelete ident s) = confirmDeleteMessage (recordName ident (storedRecords s))"
    "confirmDeleteId ?s1 = Some ident"
    using ready assms(2) first by (simp_all add: handleDelete_first)
  have two: "confirmDeleteId (elapse t ?s1) = Some ident
             \<and> names (indexedDB (elapse t ?s1)) = names (indexedDB s)
             \<and> names (indexedDB (step (Delete ident) (elapse t ?s1)))
                  = filter (\<lambda>r. id' r \<noteq> ident) (names (indexedDB s))
             \<and> ident \<notin> id' ` set (names (indexedDB (step (Delete ident) (elapse t ?s1))))"
    if h: "fault (indexedDB s) = Healthy \<and> ident \<in> id' ` set (names (indexedDB s)) \<and> t < 5000"
  proof -
    let ?s2 = "elapse t ?s1"
    have "listed ident s" using assms(1) h by (simp add: listed_def)
    then have "listed ident ?s1" using assms(2) nf by (rule first_request_listed)
    then have l2: "listed ident ?s2" by (rule elapse_listed)
    have "pending_for ident (t + Suc (4999 - t)) ?s1" using first(5) h by simp
    then have "pending_for ident (Suc (4999 - t)) ?s2"
      using h by (intro elapse_pending_for) simp_all
    then have p2: "confirmDeleteId ?s2 = Some ident" by (rule pending_for_confirm)
    have db2: "indexedDB ?s2 = indexedDB s" using first(3) by simp
    have r2: "isDBReady ?s2" and f2: "fault (indexedDB ?s2) = Healthy"
      using l2 by (simp_all add: listed_iff)
    show ?thesis
      using p2 db2 second_request [OF r2 p2 f2] by simp
  qed
  have three: "confirmDeleteId (elapse u ?s1) = None
             \<and> names (indexedDB (elapse u ?s1)) = names (indexedDB s)
             \<and> confirmDeleteId (step (Delete ident) (elapse u ?s1)) = Some ident
             \<and> names (indexedDB (step (Delete ident) (elapse u ?s1))) = names (indexedDB s)"
    if h: "fault (indexedDB s) = Healthy
            \<and> ident \<in> id' ` set (names (indexedDB s))
            \<and> \<not> str_includes (confirmDeleteMessage (recordName ident (storedRecords s)))
                  ''success''
            \<and> 5000 \<le> u"
  proof -
    let ?s2 = "elapse u ?s1"
    have ok: "timers_ok s" using assms(3) by (rule reachable_timers_ok)
    have "counting ident 5000 ?s1"
      using ok ready assms(2) h nf by (intro first_request_counting) simp_all
    then have "at_rest ?s2" using h by (intro elapse_counting_out) simp_all
    then have idle: "confirmDeleteId ?s2 = None" by (simp add: at_rest_def)
    have "listed ident s" using assms(1) h by (simp add: listed_def)
    then have "listed ident ?s1" using assms(2) nf by (rule first_request_listed)
    then have "listed ident ?s2" by (rule elapse_listed)
    then have r2: "isDBReady ?s2" by (simp add: listed_iff)
    have n2: "confirmDeleteId ?s2 \<noteq> Some ident" using idle by simp
    have f2: "fetching ?s2 = None" using first(1) nf by (simp add: step_fetching)
    have db2: "indexedDB ?s2 = indexedDB s" using first(3) by simp
    show ?thesis
      using idle db2 first_request(1,3) [OF r2 n2 f2] by simp
  qed
  show ?thesis
    using one two three by blast
qed

lemma recordName_twoDB: "recordName 1 (rev (names twoDB)) = ''Jane Doe''"
  by (simp add: recordName_def twoDB_eq jane_def form_data.defs record_object.defs
        attendance.defs)

lemma warning_jane: "\<not> str_includes (confirmDeleteMessage ''Jane Doe'') ''success''"
  by (simp add: confirmDeleteMessage_def)

lemma edDB_eq:
  "edDB = \<lparr>names = [record_object.extend (form_data.extend ed (record_object.fields 1000))
                        (attendance.fields 1)],
            keyGenerator = 2, fault = Healthy\<rparr>"
  by (simp add: edDB_def adapter_defs emptyDB_def)

lemma idb_ok_edDB: "idb_ok edDB"
  by (simp add: edDB_eq idb_ok_def)

lemma edApp_fields:
  "indexedDB edApp = edDB" "isDBReady edApp" "message edApp = ''''"
  "storedRecords edApp = rev (names edDB)" "currentPage edApp = Records"
  "confirmDeleteId edApp = None"
  by (simp_all add: edApp_def mount_def render_message render_isDBReady render_storedRecords
        loadConfigAndFetch_message loadConfigAndFetch_isDBReady loadConfigAndFetch_storedRecords
        setCurrentPage_def initialApp_def getAllRecords_healthy edDB_eq)

lemma reachable_edApp: "reachable edApp"
  unfolding edApp_def
  by (rule reachable.after [OF reachable.mounted [OF idb_ok_edDB]]) simp

lemma listed_edApp: "listed 1 edApp"
  by (simp add: listed_iff edApp_fields) (simp add: edDB_eq)

lemma recordName_edDB: "recordName 1 (rev (names edDB)) = ''Ed successor''"
  by (simp add: recordName_def edDB_eq ed_def form_data.defs record_object.defs
        attendance.defs)

lemma warning_ed: "str_includes (confirmDeleteMessage ''Ed successor'') ''success''"
  by (simp add: confirmDeleteMessage_def)

lemma flashing_ed: "flashing 1 3000 (step (Delete 1) edApp)"
proof -
  let ?c = "handleDelete 1 edApp"
  have c: "message ?c = confirmDeleteMessage ''Ed successor''" "confirmDeleteId ?c = Some 1"
    "indexedDB ?c = edDB"
    using recordName_edDB by (simp_all add: handleDelete_first edApp_fields)
  have changed: "message ?c \<noteq> message edApp"
    using c by (simp add: edApp_fields confirmDeleteMessage_def)
  have g: "getAllRecords edDB = Inr (rev (names edDB))"
    by (simp add: getAllRecords_healthy edDB_eq)
  have m: "message (render edApp ?c) = confirmDeleteMessage ''Ed successor''"
    using changed warning_ed c g by (simp add: render_message)
  have "successTimer (render edApp ?c) = Some 3000"
    using changed warning_ed m by (simp add: render_successTimer)
  moreover have "deleteTimer (render edApp ?c) = Some 5000"
    using changed c by (simp add: render_deleteTimer)
  moreover have "message (render edApp ?c) \<noteq> ''''"
    using m by (simp add: confirmDeleteMessage_def)
  moreover have "step (Delete 1) edApp = render edApp ?c"
    by (rule step_Delete_first)
       (simp_all add: edApp_fields reachable_fetching [OF reachable_edApp])
  ultimately show ?thesis
    using c by (simp add: flashing_def del: step.simps)
qed

lemma flashing_outlasts:
  assumes "flashing ident 3000 s" and "3000 \<le> t" and "t < 8000"
  shows "confirmDeleteId (elapse t s) = Some ident"
proof -
  have "flashing ident (2999 + Suc 0) s" using assms(1) by simp
  then have "flashing ident (Suc 0) (elapse 2999 s)" by (rule elapse_flashing)
  then have "pending_for ident 5000 (tick (elapse 2999 s))" by (rule tick_flashing_fires)
  then have "pending_for ident ((t - 3000) + Suc (7999 - t)) (tick (elapse 2999 s))"
    using assms(2,3) by simp
  then have "pending_for ident (Suc (7999 - t)) (elapse (t - 3000) (tick (elapse 2999 s)))"
    using assms(2,3) by (intro elapse_pending_for) simp_all
  moreover have "t = 2999 + Suc (t - 3000)" using assms(2) by arith
  then have "elapse t s = elapse (Suc (t - 3000)) (elapse 2999 s)"
    using elapse_add [of 2999 "Suc (t - 3000)" s] by simp
  ultimately show ?thesis by (simp add: pending_for_confirm)
qed

lemma jane_resets:
  "confirmDeleteId (elapse 5000 (step (Delete 1) recordsPage)) = None"
proof -
  have e: "enabled (Delete 1) recordsPage" by (rule enabled_recordsPage)
  have n: "confirmDeleteId recordsPage \<noteq> Some 1" by (simp add: recordsPage_fields)
  have h: "fault (indexedDB recordsPage) = Healthy"
    "1 \<in> id' ` set (names (indexedDB recordsPage))"
    by (simp_all add: recordsPage_fields) (simp_all add: twoDB_eq)
  have w: "\<not> str_includes (confirmDeleteMessage (recordName 1 (storedRecords recordsPage)))
      ''success''"
    using recordName_twoDB warning_jane by (simp add: recordsPage_fields)
  have le: "(5000::nat) \<le> 5000" by simp
  show ?thesis
    using two_requests [OF e n reachable_recordsPage, where u = 5000] h w le by blast
qed

text \<open>
  Claim C1 does not hold of the code, which tries to do what it says: the effect for
  the confirmation of a record sets a timer of 5000 ms whose callback resets the
  confirmation, as the effect for the clear-all confirmation does. But this effect
  depends on \<^verbatim>\<open>message\<close> too, so every change of the message restarts the timer, and the
  effect that takes success messages down after 3000 ms takes every message that
  contains \<^verbatim>\<open>success\<close> for one. With the only record named \<^verbatim>\<open>Ed successor\<close>, the warning
  of the first request contains \<^verbatim>\<open>success\<close>: it is taken down after 3000 ms, the timer
  of the confirmation starts again, the confirmation is still pending 5000 ms after the
  first request, and a single request 6000 ms after the first deletes the record. With
  the record \<^verbatim>\<open>Jane Doe\<close> the confirmation is idle 5000 ms after the first request.
\<close>

theorem confirmation_outlasts_five_seconds:
  "reachable edApp \<and> enabled (Delete 1) edApp \<and> confirmDeleteId edApp = None
   \<and> fault (indexedDB edApp) = Healthy \<and> id' ` set (names (indexedDB edApp)) = {1}
   \<and> message (handleDelete 1 edApp) = confirmDeleteMessage ''Ed successor''
   \<and> confirmDeleteId (step (Delete 1) edApp) = Some 1
   \<and> names (indexedDB (step (Delete 1) edApp)) = names (indexedDB edApp)
   \<and> confirmDeleteId (elapse 5000 (step (Delete 1) edApp)) = Some 1
   \<and> confirmDeleteId (elapse 6000 (step (Delete 1) edApp)) = Some 1
   \<and> names (indexedDB (step (Delete 1) (elapse 6000 (step (Delete 1) edApp)))) = []
   \<and> reachable recordsPage \<and> enabled (Delete 1) recordsPage
   \<and> confirmDeleteId recordsPage = None
   \<and> confirmDeleteId (elapse 5000 (step (Delete 1) recordsPage)) = None"
proof -
  let ?s1 = "step (Delete 1) edApp"
  have e: "enabled (Delete 1) edApp" using listed_edApp by (simp add: listed_def)
  have n: "confirmDeleteId edApp \<noteq> Some 1" by (simp add: edApp_fields)
  have nf: "fetching edApp = None" using reachable_edApp by (rule reachable_fetching)
  have w: "message (handleDelete 1 edApp) = confirmDeleteMessage ''Ed successor''"
    using recordName_edDB by (simp add: handleDelete_first edApp_fields)
  have one: "confirmDeleteId ?s1 = Some 1"
    using first_request(1) [OF _ n nf] by (simp add: edApp_fields)
  have five: "confirmDeleteId (elapse 5000 ?s1) = Some 1"
    and six: "confirmDeleteId (elapse 6000 ?s1) = Some 1"
    using flashing_ed by (simp_all add: flashing_outlasts)
  have "listed 1 ?s1" using listed_edApp n nf by (rule first_request_listed)
  then have "listed 1 (elapse 6000 ?s1)" by (rule elapse_listed)
  then have r: "isDBReady (elapse 6000 ?s1)" and f: "fault (indexedDB (elapse 6000 ?s1)) = Healthy"
    by (simp_all add: listed_iff)
  have db1: "indexedDB ?s1 = edDB"
    using first_request(3) [OF _ n nf] by (simp add: edApp_fields)
  then have db: "indexedDB (elapse 6000 ?s1) = edDB" by simp
  have gone: "names (indexedDB (step (Delete 1) (elapse 6000 ?s1))) = []"
    using second_request(1) [OF r six f] unfolding db by (simp add: edDB_eq)
  have ids: "id' ` set (names (indexedDB edApp)) = {1}"
    by (simp add: edApp_fields) (simp add: edDB_eq)
  have h: "fault (indexedDB edApp) = Healthy" "confirmDeleteId edApp = None"
    "names (indexedDB ?s1) = names (indexedDB edApp)"
    using db1 by (simp_all add: edApp_fields) (simp add: edDB_eq)
  have j: "confirmDeleteId recordsPage = None" by (simp add: recordsPage_fields)
  show ?thesis
    using reachable_edApp e h ids w one five six gone reachable_recordsPage
      enabled_recordsPage(1) j jane_resets
    by blast
qed

end
